theory Spec2Isabelle
  imports Complex_Main
begin

section \<open>A real-coded genetic algorithm: the embedding\<close>

text \<open>
  The theory embeds \<^verbatim>\<open>GA.py\<close> (the classes \<^verbatim>\<open>Individual\<close>, \<^verbatim>\<open>Population\<close> and the
  monolithic driver \<^verbatim>\<open>GA\<close>) and \<^verbatim>\<open>GA/GAProcess.py\<close> (the modular driver).

  Conventions of the embedding.
  \<^item> A numpy array of floats is a \<open>real list\<close>. The arithmetic of the machine is the argument
    \<open>M\<close> of every function of \<^verbatim>\<open>Individual\<close>, \<^verbatim>\<open>Population\<close> and the monolithic driver that
    adds, subtracts, multiplies or divides floats: \<open>fl M x\<close> is the float the machine stores
    for the exact result \<open>x\<close>. Overflow and \<open>nan\<close> are outside the model, except that a
    quotient by zero (which numpy returns as \<open>nan\<close> or \<open>inf\<close>, with a warning and no
    exception) is the value \<open>None\<close>. The blend of \<^verbatim>\<open>cross_individuals\<close> and the mutation
    schedules of the drivers are written in exact arithmetic.
  \<^item> Every call of the pseudorandom source is an argument of the function that makes it:
    a vector \<^verbatim>\<open>np.random.rand(n)\<close> is the first \<open>n\<close> values of a sequence \<open>nat \<Rightarrow> real\<close>,
    a draw inside a loop is indexed by, or paired with, the iteration that makes it.
  \<^item> An exception is a value \<open>Inl e\<close> of \<open>error + 'a\<close>.
\<close>

datatype error = AssertionError | ValueError | IndexError | NameError

definition bind_err :: "error + 'a \<Rightarrow> ('a \<Rightarrow> error + 'b) \<Rightarrow> error + 'b" where
  "bind_err r f = (case r of Inl e \<Rightarrow> Inl e | Inr x \<Rightarrow> f x)"

subsection \<open>Floating-point arithmetic\<close>

text \<open>
  The arithmetic of a machine: \<open>fl\<close> rounds an exact result to the float that is stored,
  and \<open>np_sum\<close> is \<^verbatim>\<open>np.sum\<close> on an array. numpy chooses the order in which \<^verbatim>\<open>np.sum\<close> adds
  (in blocks for a long array), so the sum is a component of its own and is not derived
  from \<open>fl\<close>.
\<close>

record arithmetic =
  fl :: "real \<Rightarrow> real"
  np_sum :: "real list \<Rightarrow> real"

text \<open>Arithmetic without rounding.\<close>

definition exact_arithmetic :: arithmetic where
  "exact_arithmetic = \<lparr>fl = (\<lambda>x. x), np_sum = sum_list\<rparr>"

text \<open>
  The arithmetic of Python floats and of numpy's \<^verbatim>\<open>float64\<close>: IEEE 754 binary64, a result
  being rounded to the nearest number with a significand of 53 bits, a tie to the one with
  an even significand. \<open>binade n x\<close> is the exponent \<open>e\<close> with \<open>2\<^sup>e \<le> x < 2\<^sup>e\<^sup>+\<^sup>1\<close>, found in at
  most \<open>n\<close> steps; the exponents of binary64 are within \<open>1100\<close> of zero. The rounding is that
  of a result in the normal range: overflow and gradual underflow are not modelled.
\<close>

definition round_half_even :: "real \<Rightarrow> int" where
  "round_half_even q =
     (let n = \<lfloor>q\<rfloor> in
      if q - of_int n < 1/2 then n
      else if 1/2 < q - of_int n then n + 1
      else if even n then n else n + 1)"

fun binade :: "nat \<Rightarrow> real \<Rightarrow> int" where
  "binade 0 x = 0"
| "binade (Suc n) x =
     (if 2 \<le> x then binade n (x / 2) + 1
      else if x < 1 then binade n (2 * x) - 1
      else 0)"

definition two_to :: "int \<Rightarrow> real" where
  "two_to e = (if 0 \<le> e then 2 ^ nat e else 1 / 2 ^ nat (- e))"

definition binary64 :: "real \<Rightarrow> real" where
  "binary64 x =
     (if x = 0 then 0
      else (let e = binade 1100 \<bar>x\<bar> - 52
            in of_int (round_half_even (x / two_to e)) * two_to e))"

text \<open>
  Adding the elements from left to right, each sum rounded: the order of \<^verbatim>\<open>np.sum\<close> on an
  array of fewer than eight elements.
\<close>

definition sequential_sum :: "(real \<Rightarrow> real) \<Rightarrow> real list \<Rightarrow> real" where
  "sequential_sum r xs = foldl (\<lambda>s x. r (s + x)) 0 xs"

definition binary64_arithmetic :: arithmetic where
  "binary64_arithmetic = \<lparr>fl = binary64, np_sum = sequential_sum binary64\<rparr>"

subsection \<open>numpy on one-dimensional arrays\<close>

text \<open>
  An elementwise binary operation on two one-dimensional arrays: equal shapes are combined
  pointwise, an array of one element is broadcast against the other, and any other pair of
  shapes raises \<^verbatim>\<open>ValueError\<close> (operands could not be broadcast together).
\<close>

definition np_binop :: "('a \<Rightarrow> 'b \<Rightarrow> 'c) \<Rightarrow> 'a list \<Rightarrow> 'b list \<Rightarrow> error + 'c list" where
  "np_binop f xs ys =
     (if length xs = length ys then Inr (map2 f xs ys)
      else if length xs = 1 then Inr (map (f (hd xs)) ys)
      else if length ys = 1 then Inr (map (\<lambda>x. f x (hd ys)) xs)
      else Inl ValueError)"

text \<open>An array times a Python scalar.\<close>

definition np_scale :: "real list \<Rightarrow> real \<Rightarrow> real list" where
  "np_scale xs c = map (\<lambda>x. x * c) xs"

text \<open>\<^verbatim>\<open>a.all()\<close> on an array of booleans.\<close>

definition np_all :: "bool list \<Rightarrow> bool" where
  "np_all bs = list_all (\<lambda>b. b) bs"

text \<open>\<^verbatim>\<open>np.random.rand(n)\<close>: the first \<open>n\<close> draws of the sequence \<open>us\<close>.\<close>

definition np_rand :: "(nat \<Rightarrow> real) \<Rightarrow> nat \<Rightarrow> real list" where
  "np_rand us n = map us [0..<n]"

text \<open>
  The position an integer index denotes in an array of \<open>n\<close> elements: a negative index
  counts from the end, an index outside \<open>[-n, n)\<close> raises \<^verbatim>\<open>IndexError\<close>.
\<close>

definition np_index :: "nat \<Rightarrow> int \<Rightarrow> error + nat" where
  "np_index n i =
     (if 0 \<le> i \<and> i < int n then Inr (nat i)
      else if - int n \<le> i \<and> i < 0 then Inr (nat (int n + i))
      else Inl IndexError)"

subsection \<open>Individual\<close>

record individual =
  dim :: nat
  lbound :: "real list"
  ubound :: "real list"
  chrom :: "real list"

text \<open>
  \<^verbatim>\<open>Individual.__init__\<close>. The chromosome is \<^verbatim>\<open>np.empty((dim,))\<close>, an array of \<open>dim\<close>
  arbitrary values; they are the argument \<open>placeholder\<close>. A negative \<open>dim\<close> makes
  \<^verbatim>\<open>np.empty\<close> raise, so the dimension of an individual is a natural number.
\<close>

definition Individual :: "nat \<Rightarrow> real list \<Rightarrow> real list \<Rightarrow> (nat \<Rightarrow> real) \<Rightarrow> individual" where
  "Individual d lb ub placeholder =
     \<lparr>dim = d, lbound = lb, ubound = ub, chrom = map placeholder [0..<d]\<rparr>"

text \<open>
  \<^verbatim>\<open>Individual.initialize\<close>: \<^verbatim>\<open>seeds = np.random.random(self._dim)\<close>, then
  \<^verbatim>\<open>self._chrom = self.lbound + (self.ubound-self.lbound)*seeds\<close>. The assignment is to
  the attribute, not through the setter.
\<close>

definition initialize :: "arithmetic \<Rightarrow> individual \<Rightarrow> (nat \<Rightarrow> real) \<Rightarrow> error + individual" where
  "initialize M I us =
     (let seeds = np_rand us (dim I) in
      bind_err (np_binop (\<lambda>u l. fl M (u - l)) (ubound I) (lbound I)) (\<lambda>width.
      bind_err (np_binop (\<lambda>w s. fl M (w * s)) width seeds) (\<lambda>scaled.
      bind_err (np_binop (\<lambda>l x. fl M (l + x)) (lbound I) scaled) (\<lambda>c.
      Inr (I\<lparr>chrom := c\<rparr>)))))"

text \<open>
  The setter of \<^verbatim>\<open>chrom\<close>: two assertions, the second a short-circuit \<^verbatim>\<open>and\<close> of two
  elementwise comparisons.
\<close>

definition chrom_setter :: "individual \<Rightarrow> real list \<Rightarrow> error + individual" where
  "chrom_setter I c =
     (if dim I \<noteq> length c then Inl AssertionError
      else bind_err (np_binop (\<lambda>x l. l \<le> x) c (lbound I)) (\<lambda>ge.
        if \<not> np_all ge then Inl AssertionError
        else bind_err (np_binop (\<lambda>x u. x \<le> u) c (ubound I)) (\<lambda>le.
          if \<not> np_all le then Inl AssertionError
          else Inr (I\<lparr>chrom := c\<rparr>))))"

text \<open>
  \<^verbatim>\<open>Individual.mutate\<close>. Each element of \<open>steps\<close> is a position of \<^verbatim>\<open>positions\<close> together
  with the value \<^verbatim>\<open>np.random.rand()\<close> returns in the iteration for that position. The
  statement of a branch reads \<^verbatim>\<open>self._chrom[pos]\<close> and \<^verbatim>\<open>self._lbound[pos]\<close> (or
  \<^verbatim>\<open>self._ubound[pos]\<close>) and writes \<^verbatim>\<open>self._chrom[pos]\<close> in place; the difference, the
  product and the final difference or sum are each rounded.
\<close>

definition mutate_gene :: "arithmetic \<Rightarrow> individual \<Rightarrow> int \<Rightarrow> real \<Rightarrow> real \<Rightarrow> error + individual" where
  "mutate_gene M I pos u alpha =
     bind_err (np_index (length (chrom I)) pos) (\<lambda>k.
       if u < 1/2 then
         bind_err (np_index (length (lbound I)) pos) (\<lambda>kl.
           Inr (I\<lparr>chrom := (chrom I)
                  [k := fl M (chrom I ! k - fl M (fl M (chrom I ! k - lbound I ! kl) * alpha))]\<rparr>))
       else
         bind_err (np_index (length (ubound I)) pos) (\<lambda>ku.
           Inr (I\<lparr>chrom := (chrom I)
                  [k := fl M (chrom I ! k + fl M (fl M (ubound I ! ku - chrom I ! k) * alpha))]\<rparr>)))"

fun mutate :: "arithmetic \<Rightarrow> individual \<Rightarrow> (int \<times> real) list \<Rightarrow> real \<Rightarrow> error + individual" where
  "mutate M I [] alpha = Inr I"
| "mutate M I ((pos, u) # steps) alpha =
     bind_err (mutate_gene M I pos u alpha) (\<lambda>I'. mutate M I' steps alpha)"

text \<open>
  The shape the data model gives an individual of dimension \<open>D\<close> (three vectors of \<open>D\<close>
  reals), and the bounds invariant on its genes.
\<close>

definition shaped :: "individual \<Rightarrow> bool" where
  "shaped I \<longleftrightarrow> length (lbound I) = dim I \<and> length (ubound I) = dim I \<and> length (chrom I) = dim I"

definition in_bounds :: "individual \<Rightarrow> bool" where
  "in_bounds I \<longleftrightarrow> (\<forall>i < dim I. lbound I ! i \<le> chrom I ! i \<and> chrom I ! i \<le> ubound I ! i)"

text \<open>What the setter checks of a vector \<open>c\<close>, for an individual with bounds of its own dimension.\<close>

definition admissible :: "individual \<Rightarrow> real list \<Rightarrow> bool" where
  "admissible I c \<longleftrightarrow>
     length c = dim I \<and> (\<forall>i < dim I. lbound I ! i \<le> c ! i \<and> c ! i \<le> ubound I ! i)"

text \<open>A sequence of draws that repeats one value.\<close>

definition constant_draws :: "'a \<Rightarrow> 'k \<Rightarrow> 'a" where
  "constant_draws c k = c"

subsection \<open>Crossing two individuals\<close>

text \<open>
  \<^verbatim>\<open>xa*pos*wa + xb*pos*wb\<close> for the chromosomes \<open>xa\<close>, \<open>xb\<close>, the boolean array \<open>pos\<close>
  and the scalars \<open>wa\<close>, \<open>wb\<close>; a boolean multiplies as 0 or 1.
\<close>

definition blend :: "real list \<Rightarrow> real list \<Rightarrow> bool list \<Rightarrow> real \<Rightarrow> real \<Rightarrow> error + real list" where
  "blend xa xb pos wa wb =
     bind_err (np_binop (\<lambda>x p. x * of_bool p) xa pos) (\<lambda>ma.
     bind_err (np_binop (\<lambda>x p. x * of_bool p) xb pos) (\<lambda>mb.
     np_binop (+) (np_scale ma wa) (np_scale mb wb)))"

text \<open>
  \<^verbatim>\<open>Population.cross_individuals\<close>, a static method. \<open>us\<close> are the draws of
  \<^verbatim>\<open>np.random.rand(individual_a.dimension)\<close>. Each child is built by the constructor and
  then receives its chromosome through the setter, which replaces the placeholder of
  \<^verbatim>\<open>np.empty\<close> or raises; the placeholder is fixed to zeros here, since no result depends
  on it.
\<close>

definition cross_individuals ::
    "individual \<Rightarrow> individual \<Rightarrow> real \<Rightarrow> (nat \<Rightarrow> real) \<Rightarrow> error + individual \<times> individual" where
  "cross_individuals individual_a individual_b alpha us =
     (let pos = map (\<lambda>u. u \<le> 1/2) (np_rand us (dim individual_a)) in
      bind_err (blend (chrom individual_a) (chrom individual_b) pos alpha (1 - alpha)) (\<lambda>new_value_a.
      bind_err (blend (chrom individual_a) (chrom individual_b) pos (1 - alpha) alpha) (\<lambda>new_value_b.
      let new_individual_a =
            Individual (dim individual_a) (lbound individual_a) (ubound individual_a) (constant_draws 0);
          new_individual_b =
            Individual (dim individual_b) (lbound individual_b) (ubound individual_b) (constant_draws 0)
      in
      bind_err (chrom_setter new_individual_a new_value_a) (\<lambda>child_a.
      bind_err (chrom_setter new_individual_b new_value_b) (\<lambda>child_b.
      Inr (child_a, child_b))))))"

text \<open>The mask the draws \<open>us\<close> give for a parent of dimension \<open>d\<close>, and the value of one gene of a child.\<close>

definition mask_of :: "(nat \<Rightarrow> real) \<Rightarrow> nat \<Rightarrow> bool list" where
  "mask_of us d = map (\<lambda>u. u \<le> 1/2) (np_rand us d)"

definition blended :: "individual \<Rightarrow> individual \<Rightarrow> bool list \<Rightarrow> real \<Rightarrow> real \<Rightarrow> real list" where
  "blended a b pos wa wb =
     map (\<lambda>i. if pos ! i then wa * chrom a ! i + wb * chrom b ! i else 0) [0..<dim a]"

subsection \<open>Population\<close>

text \<open>
  An \<^verbatim>\<open>Individual\<close> is an object that \<^verbatim>\<open>Individual.mutate\<close> changes in place, and one
  object can stand at several positions of \<^verbatim>\<open>_individuals\<close> (selection repeats it). The
  objects are therefore kept in \<open>heap\<close>, by address, and \<open>individuals\<close> is the list of
  their addresses. The population is modelled from the return of \<^verbatim>\<open>Population.initialize\<close>
  on, when \<^verbatim>\<open>_individuals\<close> is a list; sizes and dimensions are natural numbers.
  The state an exception leaves behind is not modelled: no caller catches one.
\<close>

record population =
  fun_evaluation :: "real list \<Rightarrow> real"
  psize :: nat
  heap :: "individual list"
  individuals :: "nat list"
  evaluation_cache :: "real list option"

text \<open>A list comprehension whose element may raise: the first exception ends it.\<close>

fun map_err :: "('a \<Rightarrow> error + 'b) \<Rightarrow> 'a list \<Rightarrow> error + 'b list" where
  "map_err f [] = Inr []"
| "map_err f (x # xs) = bind_err (f x) (\<lambda>y. bind_err (map_err f xs) (\<lambda>ys. Inr (y # ys)))"

text \<open>
  \<^verbatim>\<open>Population(fun_evaluation, size)\<close> followed by \<^verbatim>\<open>initialize(dim, lbound, ubound)\<close>,
  as \<^verbatim>\<open>GA.__init__\<close> calls them: \<open>size\<close> individuals are constructed, then each one is
  initialized with draws of its own.
\<close>

definition Population_initialize ::
    "arithmetic \<Rightarrow> (real list \<Rightarrow> real) \<Rightarrow> nat \<Rightarrow> nat \<Rightarrow> real list \<Rightarrow> real list \<Rightarrow>
       (nat \<Rightarrow> nat \<Rightarrow> real) \<Rightarrow> (nat \<Rightarrow> nat \<Rightarrow> real) \<Rightarrow> error + population" where
  "Population_initialize M f n d lb ub placeholders seeds =
     bind_err (map_err (\<lambda>i. initialize M (Individual d lb ub (placeholders i)) (seeds i)) [0..<n])
       (\<lambda>objects. Inr \<lparr>fun_evaluation = f, psize = n, heap = objects,
                       individuals = [0..<n], evaluation_cache = None\<rparr>)"

text \<open>The property \<^verbatim>\<open>evaluation\<close>: the cache, filled on the first read.\<close>

definition evaluation :: "population \<Rightarrow> real list \<times> population" where
  "evaluation P =
     (case evaluation_cache P of
        Some V \<Rightarrow> (V, P)
      | None \<Rightarrow>
          (let V = map (\<lambda>r. fun_evaluation P (chrom (heap P ! r))) (individuals P)
           in (V, P\<lparr>evaluation_cache := Some V\<rparr>)))"

text \<open>
  A quotient of two floats. numpy does not raise on a zero divisor: the quotient is \<open>nan\<close>
  or an infinity, here \<open>None\<close>. In \<open>fitness\<close> the divisor is the sum of the dividends, none
  of which is negative, so a zero divisor there makes every quotient \<open>0/0\<close>, that is \<open>nan\<close>.
  A sum with \<open>nan\<close> is \<open>nan\<close>, and every comparison with \<open>nan\<close> is false.
\<close>

definition np_div :: "arithmetic \<Rightarrow> real \<Rightarrow> real \<Rightarrow> real option" where
  "np_div M x y = (if y = 0 then None else Some (fl M (x / y)))"

definition np_add :: "arithmetic \<Rightarrow> real option \<Rightarrow> real option \<Rightarrow> real option" where
  "np_add M a b =
     (case a of None \<Rightarrow> None | Some x \<Rightarrow> (case b of None \<Rightarrow> None | Some y \<Rightarrow> Some (fl M (x + y))))"

definition np_ge :: "real \<Rightarrow> real option \<Rightarrow> bool" where
  "np_ge u p = (case p of None \<Rightarrow> False | Some c \<Rightarrow> c \<le> u)"

text \<open>
  \<^verbatim>\<open>np.cumsum\<close>: the first entry is the first element, every later entry the rounded sum of
  the entry before it and the next element.
\<close>

fun cumsum_from :: "arithmetic \<Rightarrow> real option \<Rightarrow> real option list \<Rightarrow> real option list" where
  "cumsum_from M acc [] = []"
| "cumsum_from M acc (x # xs) = np_add M acc x # cumsum_from M (np_add M acc x) xs"

fun np_cumsum :: "arithmetic \<Rightarrow> real option list \<Rightarrow> real option list" where
  "np_cumsum M [] = []"
| "np_cumsum M (x # xs) = x # cumsum_from M x xs"

text \<open>
  The property \<^verbatim>\<open>fitness\<close>: \<^verbatim>\<open>np.sum(np.abs(self.evaluation)) - self.evaluation\<close>, divided
  by its sum. \<open>fitness_of\<close> is the arithmetic on the evaluation vector.
\<close>

definition fitness_of :: "arithmetic \<Rightarrow> real list \<Rightarrow> real option list" where
  "fitness_of M V =
     (let fitness = map (\<lambda>v. fl M (np_sum M (map abs V) - v)) V
      in map (\<lambda>x. np_div M x (np_sum M fitness)) fitness)"

definition fitness :: "arithmetic \<Rightarrow> population \<Rightarrow> real option list \<times> population" where
  "fitness M P =
     (let (V, P1) = evaluation P;
          (V', P2) = evaluation P1;
          fitness = map (\<lambda>v. fl M (np_sum M (map abs V) - v)) V'
      in (map (\<lambda>x. np_div M x (np_sum M fitness)) fitness, P2))"

text \<open>\<^verbatim>\<open>np.argmin\<close>, \<^verbatim>\<open>np.min\<close> and \<^verbatim>\<open>np.max\<close> raise on an empty array.\<close>

definition np_argmin :: "real list \<Rightarrow> error + nat" where
  "np_argmin xs =
     (if xs = [] then Inl ValueError
      else Inr (length (takeWhile (\<lambda>x. x \<noteq> min_list xs) xs)))"

definition np_min :: "real list \<Rightarrow> error + real" where
  "np_min xs = (if xs = [] then Inl ValueError else Inr (min_list xs))"

definition np_max :: "real list \<Rightarrow> error + real" where
  "np_max xs = (if xs = [] then Inl ValueError else Inr (fold max (tl xs) (hd xs)))"

text \<open>Reading a Python list at a non-negative index.\<close>

definition list_get :: "'a list \<Rightarrow> nat \<Rightarrow> error + 'a" where
  "list_get xs k = (if k < length xs then Inr (xs ! k) else Inl IndexError)"

text \<open>The property \<^verbatim>\<open>best\<close>: the address of the best individual and its evaluation.\<close>

definition best :: "population \<Rightarrow> error + (nat \<times> real) \<times> population" where
  "best P =
     (let (V, P1) = evaluation P in
      bind_err (np_argmin V) (\<lambda>pos.
      bind_err (list_get (individuals P1) pos) (\<lambda>r.
      let (V', P2) = evaluation P1 in
      bind_err (list_get V' pos) (\<lambda>val.
      Inr ((r, val), P2)))))"

definition convergent :: "arithmetic \<Rightarrow> population \<Rightarrow> real \<Rightarrow> error + bool \<times> population" where
  "convergent M P tol =
     (let (V, P1) = evaluation P in
      bind_err (np_max V) (\<lambda>max_eval.
      let (V', P2) = evaluation P1 in
      bind_err (np_min V') (\<lambda>min_eval.
      Inr (fl M (max_eval - min_eval) \<le> tol, P2))))"

text \<open>
  \<^verbatim>\<open>Population.select\<close>. \<open>us i\<close> is the draw of \<^verbatim>\<open>np.random.rand()\<close> for the element \<open>i\<close> of
  the comprehension; \<^verbatim>\<open>np.sum(u >= probabilities)\<close> counts the cumulative sums that the
  draw reaches.
\<close>

definition roulette_index :: "real option list \<Rightarrow> real \<Rightarrow> nat" where
  "roulette_index probabilities u = length (filter (np_ge u) probabilities)"

definition select :: "arithmetic \<Rightarrow> population \<Rightarrow> (nat \<Rightarrow> real) \<Rightarrow> error + population" where
  "select M P us =
     (let (fit, P1) = fitness M P;
          probabilities = np_cumsum M fit
      in bind_err
           (map_err (\<lambda>i. list_get (individuals P1) (roulette_index probabilities (us i)))
              [0..<psize P1])
           (\<lambda>selected_individuals.
              Inr (P1\<lparr>individuals := selected_individuals, evaluation_cache := None\<rparr>)))"

text \<open>
  Sampling without replacement, for \<^verbatim>\<open>np.random.permutation(xs)\<close> and
  \<^verbatim>\<open>np.random.choice(xs, n, replace=False)\<close>: the element taken next is the one at
  position \<open>r 0 mod length pool\<close> of what is left, for a sequence \<open>r\<close> of arbitrary
  naturals, so that any element that is left can come next and none comes twice.
  \<^verbatim>\<open>np.random.choice\<close> raises when the sample is larger than the pool.
\<close>

fun draw_without_replacement :: "'a list \<Rightarrow> nat \<Rightarrow> (nat \<Rightarrow> nat) \<Rightarrow> 'a list" where
  "draw_without_replacement pool 0 r = []"
| "draw_without_replacement pool (Suc n) r =
     (if pool = [] then []
      else (let k = r 0 mod length pool
            in pool ! k # draw_without_replacement (take k pool @ drop (Suc k) pool) n (\<lambda>j. r (Suc j))))"

definition np_permutation :: "'a list \<Rightarrow> (nat \<Rightarrow> nat) \<Rightarrow> 'a list" where
  "np_permutation xs r = draw_without_replacement xs (length xs) r"

definition np_choice :: "'a list \<Rightarrow> nat \<Rightarrow> (nat \<Rightarrow> nat) \<Rightarrow> error + 'a list" where
  "np_choice pool n r =
     (if length pool < n then Inl ValueError else Inr (draw_without_replacement pool n r))"

text \<open>
  The draws of one call of \<^verbatim>\<open>Population.crossover\<close>: for the permutation, for the test
  against \<open>rate\<close> of pair \<open>j\<close>, for the mask of pair \<open>j\<close>, and for the final choice.
\<close>

record crossover_draws =
  permutation_draws :: "nat \<Rightarrow> nat"
  pair_draws :: "nat \<Rightarrow> real"
  mask_draws :: "nat \<Rightarrow> nat \<Rightarrow> real"
  choice_draws :: "nat \<Rightarrow> nat"

text \<open>
  The loop of \<^verbatim>\<open>crossover\<close> over the pairs, from pair number \<open>j\<close>: \<open>h\<close> is the heap, to
  which the children are added, and \<open>new_individuals\<close> the candidates so far.
\<close>

fun cross_pairs ::
    "real \<Rightarrow> real \<Rightarrow> crossover_draws \<Rightarrow> nat \<Rightarrow> (nat \<times> nat) list \<Rightarrow> individual list \<Rightarrow> nat list
       \<Rightarrow> error + individual list \<times> nat list" where
  "cross_pairs rate alpha dr j [] h new_individuals = Inr (h, new_individuals)"
| "cross_pairs rate alpha dr j ((a, b) # pairs) h new_individuals =
     (if pair_draws dr j \<le> rate then
        bind_err (cross_individuals (h ! a) (h ! b) alpha (mask_draws dr j)) (\<lambda>(child_a, child_b).
          cross_pairs rate alpha dr (Suc j) pairs (h @ [child_a, child_b])
            (new_individuals @ [length h, Suc (length h)]))
      else cross_pairs rate alpha dr (Suc j) pairs h (new_individuals @ [a, b]))"

definition crossover :: "population \<Rightarrow> real \<Rightarrow> real \<Rightarrow> crossover_draws \<Rightarrow> error + population" where
  "crossover P rate alpha dr =
     (let random_population = np_permutation (individuals P) (permutation_draws dr) in
      bind_err (cross_pairs rate alpha dr 0 (zip (individuals P) random_population) (heap P) [])
        (\<lambda>(h, new_individuals).
      bind_err (np_choice new_individuals (psize P) (choice_draws dr)) (\<lambda>chosen.
      Inr (P\<lparr>heap := h, individuals := chosen, evaluation_cache := None\<rparr>))))"

text \<open>
  The draws of one call of \<^verbatim>\<open>Population.mutate\<close>, each for the individual at position \<open>j\<close>
  of the loop: for the test against \<open>rate\<close>, for the choice of gene positions, and for the
  direction of each of its steps.
\<close>

record mutate_draws =
  rate_draws :: "nat \<Rightarrow> real"
  position_draws :: "nat \<Rightarrow> nat \<Rightarrow> nat"
  direction_draws :: "nat \<Rightarrow> nat \<Rightarrow> real"

text \<open>
  \<^verbatim>\<open>np.random.choice(a, num, replace=False)\<close> for an integer \<open>a\<close>: a sample of
  \<^verbatim>\<open>np.arange(a)\<close>; a negative \<open>num\<close> raises.
\<close>

definition np_choice_range :: "nat \<Rightarrow> int \<Rightarrow> (nat \<Rightarrow> nat) \<Rightarrow> error + nat list" where
  "np_choice_range a num r = (if num < 0 then Inl ValueError else np_choice [0..<a] (nat num) r)"

fun mutate_each ::
    "arithmetic \<Rightarrow> int \<Rightarrow> real \<Rightarrow> real \<Rightarrow> mutate_draws \<Rightarrow> nat \<Rightarrow> nat list \<Rightarrow> individual list
       \<Rightarrow> error + individual list" where
  "mutate_each M num rate alpha dr j [] h = Inr h"
| "mutate_each M num rate alpha dr j (r # rs) h =
     (if rate_draws dr j \<le> rate then
        bind_err (np_choice_range (dim (h ! r)) num (position_draws dr j)) (\<lambda>pos.
        bind_err (mutate M (h ! r) (zip (map int pos) (map (direction_draws dr j) [0..<length pos])) alpha)
          (\<lambda>mutated. mutate_each M num rate alpha dr (Suc j) rs (h[r := mutated])))
      else mutate_each M num rate alpha dr (Suc j) rs h)"

definition Population_mutate ::
    "arithmetic \<Rightarrow> population \<Rightarrow> int \<Rightarrow> real \<Rightarrow> real \<Rightarrow> mutate_draws \<Rightarrow> error + population" where
  "Population_mutate M P num rate alpha dr =
     (let P1 = P\<lparr>evaluation_cache := None\<rparr> in
      bind_err (mutate_each M num rate alpha dr 0 (individuals P1) (heap P1)) (\<lambda>h.
      Inr (P1\<lparr>heap := h\<rparr>)))"

text \<open>
  The evaluation vector of the current individuals, and the populations the operators
  work on: there are \<open>psize\<close> addresses, each one allocated, and the cache is absent or
  holds the evaluation vector.
\<close>

definition evaluations :: "population \<Rightarrow> real list" where
  "evaluations P = map (\<lambda>r. fun_evaluation P (chrom (heap P ! r))) (individuals P)"

definition wf_population :: "population \<Rightarrow> bool" where
  "wf_population P \<longleftrightarrow>
     length (individuals P) = psize P \<and>
     list_all (\<lambda>r. r < length (heap P)) (individuals P) \<and>
     (case evaluation_cache P of None \<Rightarrow> True | Some V \<Rightarrow> V = evaluations P)"

text \<open>
  In exact arithmetic: the divisor of the fitness, and the fitness vector where the divisor
  is not zero.
\<close>

definition fitness_total :: "real list \<Rightarrow> real" where
  "fitness_total V = sum_list (map (\<lambda>v. sum_list (map abs V) - v) V)"

definition fitness_vector :: "real list \<Rightarrow> real list" where
  "fitness_vector V = map (\<lambda>v. (sum_list (map abs V) - v) / fitness_total V) V"



subsection \<open>The monolithic driver\<close>

text \<open>
  \<^verbatim>\<open>self._param\<close>, the dictionary of the driver. \<open>default_param\<close> are the defaults of
  \<^verbatim>\<open>GA.__init__\<close>; the effect of \<^verbatim>\<open>self._param.update(kw)\<close> is the argument \<open>kw\<close>.
\<close>

record ga_param =
  var_dim :: int
  param_lbound :: "real list"
  param_ubound :: "real list"
  param_size :: nat
  max_generation :: int
  crossover_rate :: real
  mutation_rate :: real
  crossover_alpha :: real

definition default_param :: "nat \<Rightarrow> ga_param" where
  "default_param dimention =
     \<lparr>var_dim = int dimention,
      param_lbound = replicate dimention (- 1000000000),
      param_ubound = replicate dimention 1000000000,
      param_size = 200, max_generation = 10,
      crossover_rate = 9/10, mutation_rate = 8/100, crossover_alpha = 3/4\<rparr>"

record ga =
  param :: ga_param
  ga_population :: population

definition GA_init ::
    "arithmetic \<Rightarrow> (real list \<Rightarrow> real) \<Rightarrow> nat \<Rightarrow> (ga_param \<Rightarrow> ga_param) \<Rightarrow>
       (nat \<Rightarrow> nat \<Rightarrow> real) \<Rightarrow> (nat \<Rightarrow> nat \<Rightarrow> real) \<Rightarrow> error + ga" where
  "GA_init M f dimention kw placeholders seeds =
     (let prm = kw (default_param dimention) in
      bind_err (Population_initialize M f (param_size prm) dimention
                  (param_lbound prm) (param_ubound prm) placeholders seeds)
        (\<lambda>P. Inr \<lparr>param = prm, ga_population = P\<rparr>))"

text \<open>
  \<^verbatim>\<open>x ** y\<close> on floats, for the arguments the drivers give it: \<open>x\<close> a draw of \<open>[0, 1)\<close> and
  \<open>y \<ge> 0\<close>. Python has \<^verbatim>\<open>x ** 0.0 == 1.0\<close> for every \<open>x\<close>, also for \<open>x = 0\<close>.
\<close>

definition py_pow :: "real \<Rightarrow> real \<Rightarrow> real" where
  "py_pow x y = (if y = 0 then 1 else if x = 0 then 0 else x powr y)"

text \<open>
  The magnitude of \<^verbatim>\<open>GA.solve\<close>:
  \<^verbatim>\<open>1.0 - np.random.rand()**(1.0-current_gen/self._param['max_generation'])\<close>,
  with the draw \<open>u\<close> and the true division of Python 3. In the loop
  \<open>1 \<le> current_gen \<le> max_generation\<close>, so the divisor is not zero and the exponent is in
  \<open>[0, 1)\<close>.
\<close>

definition mutation_magnitude :: "real \<Rightarrow> int \<Rightarrow> int \<Rightarrow> real" where
  "mutation_magnitude u current_gen max_gen =
     1 - py_pow u (1 - real_of_int current_gen / real_of_int max_gen)"

text \<open>\<^verbatim>\<open>np.random.randint(high)\<close>: a value of \<open>[0, high)\<close>, and an exception when there is none.\<close>

definition np_randint :: "int \<Rightarrow> nat \<Rightarrow> error + int" where
  "np_randint high r = (if high \<le> 0 then Inl ValueError else Inr (int r mod high))"

text \<open>The draws of one generation of \<^verbatim>\<open>GA.solve\<close>.\<close>

record generation_draws =
  magnitude_draw :: real
  select_draws :: "nat \<Rightarrow> real"
  cross_draws :: crossover_draws
  count_draw :: nat
  mut_draws :: mutate_draws

text \<open>The operations of one generation: the first four statements of the loop body.\<close>

definition generation ::
    "arithmetic \<Rightarrow> ga_param \<Rightarrow> generation_draws \<Rightarrow> int \<Rightarrow> population \<Rightarrow> error + population" where
  "generation M prm dr current_gen P =
     (let rate = mutation_magnitude (magnitude_draw dr) current_gen (max_generation prm) in
      bind_err (select M P (select_draws dr)) (\<lambda>P1.
      bind_err (crossover P1 (crossover_rate prm) (crossover_alpha prm) (cross_draws dr)) (\<lambda>P2.
      bind_err (np_randint (var_dim prm) (count_draw dr)) (\<lambda>n.
      Population_mutate M P2 (n + 1) (mutation_rate prm) rate (mut_draws dr)))))"

text \<open>The loop of \<^verbatim>\<open>GA.solve\<close> over the generations left, with its \<^verbatim>\<open>break\<close>.\<close>

fun solve_loop ::
    "arithmetic \<Rightarrow> ga_param \<Rightarrow> (int \<Rightarrow> generation_draws) \<Rightarrow> int list \<Rightarrow> population
       \<Rightarrow> error + population" where
  "solve_loop M prm dr [] P = Inr P"
| "solve_loop M prm dr (current_gen # gens) P =
     bind_err (generation M prm (dr current_gen) current_gen P) (\<lambda>P1.
     bind_err (convergent M P1 (1/1000000)) (\<lambda>(c, P2).
     if c then Inr P2 else solve_loop M prm dr gens P2))"

text \<open>
  \<^verbatim>\<open>GA.solve\<close>; the result is the address of the best individual, its evaluation and the
  driver. The \<^verbatim>\<open>print\<close> of \<^verbatim>\<open>current_gen\<close> raises when the loop had no iteration.
\<close>

definition solve ::
    "arithmetic \<Rightarrow> ga \<Rightarrow> (int \<Rightarrow> generation_draws) \<Rightarrow> error + (nat \<times> real) \<times> ga" where
  "solve M G dr =
     bind_err (solve_loop M (param G) dr [1..max_generation (param G)] (ga_population G)) (\<lambda>P.
     bind_err (best P) (\<lambda>(individual_val, P1).
     if max_generation (param G) < 1 then Inl NameError
     else Inr (individual_val, G\<lparr>ga_population := P1\<rparr>)))"

subsection \<open>The modular driver\<close>

text \<open>
  \<^verbatim>\<open>GA/GAProcess.py\<close> uses a population and three operator objects of classes that are not
  among the sources. An operator is taken as it is given: the list \<open>individual_class\<close> it
  declares (a value that Python counts as false, \<^verbatim>\<open>None\<close> or an empty collection, is the
  empty list) and what its method does in generation \<open>n\<close>, which may raise.
\<close>

record ('i, 'c) mpopulation =
  m_individual_class :: 'c
  m_size :: nat
  m_individuals :: "'i list"

record ('c, 'f) operator =
  individual_class :: "'c list"
  operation :: 'f

record ('i, 'c) ga_process =
  gp_population :: "('i, 'c) mpopulation"
  gp_selection :: "int \<Rightarrow> ('i, 'c) mpopulation \<Rightarrow> error + ('i, 'c) mpopulation"
  gp_crossover :: "('c, int \<Rightarrow> ('i, 'c) mpopulation \<Rightarrow> error + ('i, 'c) mpopulation) operator"
  gp_mutation :: "('c, int \<Rightarrow> ('i, 'c) mpopulation \<Rightarrow> real \<Rightarrow> error + ('i, 'c) mpopulation) operator"
  gp_fun_fitness :: "real \<Rightarrow> real"

text \<open>\<^verbatim>\<open>GA.__init__\<close> of the modular driver, with its two checks in their order.\<close>

definition GAProcess_init ::
    "('i, 'c) mpopulation \<Rightarrow> (int \<Rightarrow> ('i, 'c) mpopulation \<Rightarrow> error + ('i, 'c) mpopulation) \<Rightarrow>
       ('c, int \<Rightarrow> ('i, 'c) mpopulation \<Rightarrow> error + ('i, 'c) mpopulation) operator \<Rightarrow>
       ('c, int \<Rightarrow> ('i, 'c) mpopulation \<Rightarrow> real \<Rightarrow> error + ('i, 'c) mpopulation) operator \<Rightarrow>
       (real \<Rightarrow> real) \<Rightarrow> error + ('i, 'c) ga_process" where
  "GAProcess_init population selection crossover_op mutation fun_fitness =
     (if individual_class crossover_op = []
         \<or> m_individual_class population \<notin> set (individual_class crossover_op)
      then Inl ValueError
      else if individual_class mutation = []
         \<or> m_individual_class population \<notin> set (individual_class mutation)
      then Inl ValueError
      else Inr \<lparr>gp_population = population, gp_selection = selection,
                gp_crossover = crossover_op, gp_mutation = mutation,
                gp_fun_fitness = fun_fitness\<rparr>)"

text \<open>The default of the argument \<^verbatim>\<open>fun_fitness\<close>.\<close>

definition default_fun_fitness :: "real \<Rightarrow> real" where
  "default_fun_fitness x = arctan (- x) + pi"

text \<open>
  Modelled from the spec: \<^verbatim>\<open>Population.best\<close> of the modular package, whose class is not
  among the sources. The spec has it return the individual at the index of the minimum
  evaluation, the first such index on a tie; with no individual there is no minimum.
\<close>

definition m_best :: "('i \<Rightarrow> real) \<Rightarrow> (real \<Rightarrow> real) \<Rightarrow> ('i, 'c) mpopulation \<Rightarrow> error + 'i" where
  "m_best fun_eval fun_fitness P =
     bind_err (np_argmin (map fun_eval (m_individuals P))) (\<lambda>pos.
       list_get (m_individuals P) pos)"

text \<open>
  Modelled from the spec: \<^verbatim>\<open>Population.evaluate\<close> and \<^verbatim>\<open>Population.initialize\<close> of the
  modular package. Evaluating fills a cache and leaves the individuals as they are;
  initializing constructs \<open>m_size\<close> fresh individuals, here the values \<open>fresh 0\<close>, \<open>fresh 1\<close>, ...
\<close>

definition m_evaluate ::
    "('i \<Rightarrow> real) \<Rightarrow> (real \<Rightarrow> real) \<Rightarrow> ('i, 'c) mpopulation \<Rightarrow> ('i, 'c) mpopulation" where
  "m_evaluate fun_eval fun_fitness P = P"

definition m_initialize :: "(nat \<Rightarrow> 'i) \<Rightarrow> ('i, 'c) mpopulation \<Rightarrow> ('i, 'c) mpopulation" where
  "m_initialize fresh P = P\<lparr>m_individuals := map fresh [0..<m_size P]\<rparr>"

text \<open>
  The draws of \<^verbatim>\<open>GA.run\<close> in generation \<open>n\<close>: \<open>rate_draw n\<close> for \<^verbatim>\<open>np.random.rand()\<close> and
  \<open>slot_draw n\<close> for \<^verbatim>\<open>np.random.randint(self.population.size)\<close>.
\<close>

record run_draws =
  rate_draw :: "int \<Rightarrow> real"
  slot_draw :: "int \<Rightarrow> nat"

text \<open>Selection, crossover and mutation of generation \<open>n\<close> of \<open>gen\<close>, with the adaptive rate.\<close>

definition run_operators ::
    "('i, 'c) ga_process \<Rightarrow> int \<Rightarrow> run_draws \<Rightarrow> int \<Rightarrow> ('i, 'c) mpopulation
       \<Rightarrow> error + ('i, 'c) mpopulation" where
  "run_operators G gen dr n P =
     bind_err (gp_selection G n P) (\<lambda>P1.
     bind_err (operation (gp_crossover G) n P1) (\<lambda>P2.
     let rate = 1 - py_pow (rate_draw dr n) ((1 - real_of_int n / real_of_int gen) ^ 3)
     in operation (gp_mutation G) n P2 rate))"

text \<open>\<^verbatim>\<open>pos = np.random.randint(self.population.size)\<close> and \<^verbatim>\<open>individuals[pos] = the_best\<close>.\<close>

definition set_elite :: "('i, 'c) mpopulation \<Rightarrow> nat \<Rightarrow> 'i \<Rightarrow> error + ('i, 'c) mpopulation" where
  "set_elite P r the_best =
     bind_err (np_randint (int (m_size P)) r) (\<lambda>pos.
       if nat pos < length (m_individuals P)
       then Inr (P\<lparr>m_individuals := (m_individuals P)[nat pos := the_best]\<rparr>)
       else Inl IndexError)"

text \<open>
  The loop of \<^verbatim>\<open>GA.run\<close> over the generations left. Beside the result it returns the
  evaluations of the snapshots \<^verbatim>\<open>the_best\<close> in the order they were taken, up to the end of
  the loop or to the exception that ends it. \<^verbatim>\<open>copy.deepcopy\<close> is the identity on values.
\<close>

fun run_loop ::
    "('i, 'c) ga_process \<Rightarrow> ('i \<Rightarrow> real) \<Rightarrow> int \<Rightarrow> bool \<Rightarrow> run_draws \<Rightarrow> int list \<Rightarrow>
       ('i, 'c) mpopulation \<Rightarrow> real list \<times> (error + ('i, 'c) mpopulation)" where
  "run_loop G fun_eval gen elitism dr [] P = ([], Inr P)"
| "run_loop G fun_eval gen elitism dr (n # ns) P =
     (if elitism then
        (case m_best fun_eval (gp_fun_fitness G) P of
           Inl e \<Rightarrow> ([], Inl e)
         | Inr the_best \<Rightarrow>
             (case bind_err (run_operators G gen dr n P) (\<lambda>P3. set_elite P3 (slot_draw dr n) the_best) of
                Inl e \<Rightarrow> ([fun_eval the_best], Inl e)
              | Inr P4 \<Rightarrow>
                  (let (snapshots, result) = run_loop G fun_eval gen elitism dr ns P4
                   in (fun_eval the_best # snapshots, result))))
      else
        (case run_operators G gen dr n (m_evaluate fun_eval (gp_fun_fitness G) P) of
           Inl e \<Rightarrow> ([], Inl e)
         | Inr P3 \<Rightarrow> run_loop G fun_eval gen elitism dr ns P3))"

text \<open>
  \<^verbatim>\<open>GA.run\<close>: the snapshots' evaluations, and the individual returned or the exception.
\<close>

definition run ::
    "('i, 'c) ga_process \<Rightarrow> ('i \<Rightarrow> real) \<Rightarrow> int \<Rightarrow> bool \<Rightarrow> (nat \<Rightarrow> 'i) \<Rightarrow> run_draws
       \<Rightarrow> real list \<times> (error + 'i)" where
  "run G fun_eval gen elitism fresh dr =
     (let (snapshots, result) =
            run_loop G fun_eval gen elitism dr [1..gen] (m_initialize fresh (gp_population G))
      in (snapshots, bind_err result (m_best fun_eval (gp_fun_fitness G))))"

text \<open>A sequence of reals that never increases.\<close>

definition non_increasing :: "real list \<Rightarrow> bool" where
  "non_increasing xs \<longleftrightarrow> sorted_wrt (\<lambda>x y. y \<le> x) xs"

subsection \<open>Concrete inputs\<close>

definition example_individual :: individual where
  "example_individual = \<lparr>dim = 2, lbound = [- 10, - 10], ubound = [10, 10], chrom = [1, 0]\<rparr>"

definition example_partner :: individual where
  "example_partner = \<lparr>dim = 2, lbound = [- 10, - 10], ubound = [10, 10], chrom = [0, 1]\<rparr>"

definition positive_individual :: individual where
  "positive_individual = \<lparr>dim = 1, lbound = [1], ubound = [2], chrom = [1]\<rparr>"

definition example_population :: population where
  "example_population =
     \<lparr>fun_evaluation = sum_list, psize = 2, heap = [example_individual, example_partner],
      individuals = [0, 1], evaluation_cache = None\<rparr>"

text \<open>
  An individual at its lower bound \<open>-3\<close>, whose upper bound is the float nearest to \<open>0.1\<close>; six
  individuals of one evaluation; and the largest value of \<^verbatim>\<open>np.random.rand()\<close>.
\<close>

definition boundary_individual :: individual where
  "boundary_individual =
     \<lparr>dim = 1, lbound = [- 3], ubound = [3602879701896397 / 36028797018963968], chrom = [- 3]\<rparr>"




definition single_population :: population where
  "single_population =
     \<lparr>fun_evaluation = sum_list, psize = 1, heap = [positive_individual],
      individuals = [0], evaluation_cache = None\<rparr>"

definition example_crossover_draws :: crossover_draws where
  "example_crossover_draws =
     \<lparr>permutation_draws = constant_draws 1, pair_draws = constant_draws (1/2),
      mask_draws = constant_draws (constant_draws (1/4)), choice_draws = constant_draws 0\<rparr>"

definition example_mutate_draws :: mutate_draws where
  "example_mutate_draws =
     \<lparr>rate_draws = constant_draws (1/2), position_draws = constant_draws (constant_draws 0),
      direction_draws = constant_draws (constant_draws (1/4))\<rparr>"

definition evaluated_population :: population where
  "evaluated_population = example_population\<lparr>evaluation_cache := Some [1, 1]\<rparr>"

definition example_modular_population :: "(real, string) mpopulation" where
  "example_modular_population = \<lparr>m_individual_class = ''RealIndividual'', m_size = 2, m_individuals = []\<rparr>"

definition keep_population :: "int \<Rightarrow> (real, string) mpopulation \<Rightarrow> error + (real, string) mpopulation" where
  "keep_population n P = Inr P"

definition decrement_all ::
    "int \<Rightarrow> (real, string) mpopulation \<Rightarrow> real \<Rightarrow> error + (real, string) mpopulation" where
  "decrement_all n P rate = Inr (P\<lparr>m_individuals := map (\<lambda>x. x - rate) (m_individuals P)\<rparr>)"

definition example_crossover_operator ::
    "(string, int \<Rightarrow> (real, string) mpopulation \<Rightarrow> error + (real, string) mpopulation) operator" where
  "example_crossover_operator =
     \<lparr>individual_class = [''BinaryIndividual'', ''RealIndividual''], operation = keep_population\<rparr>"

definition example_mutation_operator ::
    "(string, int \<Rightarrow> (real, string) mpopulation \<Rightarrow> real \<Rightarrow> error + (real, string) mpopulation) operator" where
  "example_mutation_operator =
     \<lparr>individual_class = [''RealIndividual''], operation = decrement_all\<rparr>"

definition binary_mutation_operator ::
    "(string, int \<Rightarrow> (real, string) mpopulation \<Rightarrow> real \<Rightarrow> error + (real, string) mpopulation) operator" where
  "binary_mutation_operator =
     \<lparr>individual_class = [''BinaryIndividual''], operation = decrement_all\<rparr>"

definition example_process :: "(real, string) ga_process" where
  "example_process =
     \<lparr>gp_population = example_modular_population, gp_selection = keep_population,
      gp_crossover = example_crossover_operator, gp_mutation = example_mutation_operator,
      gp_fun_fitness = default_fun_fitness\<rparr>"

definition example_fresh :: "nat \<Rightarrow> real" where
  "example_fresh k = 3 + real k"

definition example_run_draws :: run_draws where
  "example_run_draws = \<lparr>rate_draw = constant_draws 0, slot_draw = constant_draws 1\<rparr>"

section \<open>Properties\<close>

subsection \<open>Auxiliary facts\<close>


lemma np_binop_same: "length xs = length ys \<Longrightarrow> np_binop f xs ys = Inr (map2 f xs ys)"
  by (simp add: np_binop_def)

lemma bind_err_Inr [simp]: "bind_err (Inr x) f = f x"
  by (simp add: bind_err_def)

lemma bind_err_Inl [simp]: "bind_err (Inl e) f = Inl e"
  by (simp add: bind_err_def)

lemma fl_exact [simp]: "fl exact_arithmetic x = x"
  by (simp add: exact_arithmetic_def)

lemma np_sum_exact [simp]: "np_sum exact_arithmetic xs = sum_list xs"
  by (simp add: exact_arithmetic_def)

lemma binade_numeral:
  "binade (numeral k) x =
     (if 2 \<le> x then binade (pred_numeral k) (x / 2) + 1
      else if x < 1 then binade (pred_numeral k) (2 * x) - 1
      else 0)"
  by (simp add: numeral_eq_Suc)

lemmas binary64_eval =
  binary64_def binade_numeral two_to_def round_half_even_def Let_def
  binary64_arithmetic_def sequential_sum_def

lemma initialize_value:
  assumes "length (lbound I) = dim I" "length (ubound I) = dim I"
  shows "initialize M I us =
     Inr (I\<lparr>chrom := map (\<lambda>i. fl M (lbound I ! i + fl M (fl M (ubound I ! i - lbound I ! i) * us i)))
                        [0..<dim I]\<rparr>)"
proof -
  have "map2 (\<lambda>l x. fl M (l + x)) (lbound I)
          (map2 (\<lambda>w s. fl M (w * s)) (map2 (\<lambda>u l. fl M (u - l)) (ubound I) (lbound I))
             (map us [0..<dim I]))
      = map (\<lambda>i. fl M (lbound I ! i + fl M (fl M (ubound I ! i - lbound I ! i) * us i))) [0..<dim I]"
    using assms by (intro nth_equalityI) simp_all
  then show ?thesis
    using assms by (simp add: initialize_def np_rand_def np_binop_same Let_def)
qed

lemma scaled_between:
  fixes l u s :: real
  assumes "l \<le> u" "0 \<le> s" "s < 1"
  shows "l \<le> l + (u - l) * s" "l + (u - l) * s \<le> u"
proof -
  show "l \<le> l + (u - l) * s" using assms by simp
  have "(u - l) * s \<le> (u - l) * 1"
    using assms by (intro mult_left_mono) simp_all
  then show "l + (u - l) * s \<le> u" by simp
qed

lemma np_all_map2: "length xs = length ys \<Longrightarrow> np_all (map2 f xs ys) \<longleftrightarrow> (\<forall>i < length xs. f (xs ! i) (ys ! i))"
  by (auto simp: np_all_def list_all_length)

lemma chrom_setter_value:
  assumes "length (lbound I) = dim I" "length (ubound I) = dim I"
  shows "chrom_setter I c = (if admissible I c then Inr (I\<lparr>chrom := c\<rparr>) else Inl AssertionError)"
proof (cases "length c = dim I")
  case False
  then show ?thesis by (auto simp: chrom_setter_def admissible_def)
next
  case True
  then show ?thesis
    using assms by (auto simp: chrom_setter_def admissible_def np_binop_same np_all_map2)
qed

lemma creep_down:
  fixes l c a :: real
  assumes "l \<le> c" "0 \<le> a" "a \<le> 1"
  shows "l \<le> c - (c - l) * a" "c - (c - l) * a \<le> c"
proof -
  have "0 \<le> (c - l) * a" using assms by simp
  then show "c - (c - l) * a \<le> c" by simp
  have "(c - l) * a \<le> (c - l) * 1" using assms by (intro mult_left_mono) simp_all
  then show "l \<le> c - (c - l) * a" by simp
qed

lemma creep_up:
  fixes u c a :: real
  assumes "c \<le> u" "0 \<le> a" "a \<le> 1"
  shows "c \<le> c + (u - c) * a" "c + (u - c) * a \<le> u"
proof -
  have "0 \<le> (u - c) * a" using assms by simp
  then show "c \<le> c + (u - c) * a" by simp
  have "(u - c) * a \<le> (u - c) * 1" using assms by (intro mult_left_mono) simp_all
  then show "c + (u - c) * a \<le> u" by simp
qed

lemma np_index_in_range:
  assumes "- int n \<le> i" "i < int n"
  shows "\<exists>k. np_index n i = Inr k \<and> k < n"
proof (cases "0 \<le> i")
  case True
  then show ?thesis using assms by (simp add: np_index_def)
next
  case False
  then have "nat (int n + i) < n" using assms by linarith
  then show ?thesis using False assms by (simp add: np_index_def)
qed

lemma in_bounds_update:
  assumes "in_bounds I" "length (chrom I) = dim I" "lbound I ! k \<le> v" "v \<le> ubound I ! k"
  shows "in_bounds (I\<lparr>chrom := (chrom I)[k := v]\<rparr>)"
  unfolding in_bounds_def
proof (intro allI impI)
  fix i assume i: "i < dim (I\<lparr>chrom := (chrom I)[k := v]\<rparr>)"
  show "lbound (I\<lparr>chrom := (chrom I)[k := v]\<rparr>) ! i \<le> chrom (I\<lparr>chrom := (chrom I)[k := v]\<rparr>) ! i
      \<and> chrom (I\<lparr>chrom := (chrom I)[k := v]\<rparr>) ! i \<le> ubound (I\<lparr>chrom := (chrom I)[k := v]\<rparr>) ! i"
  proof (cases "i = k")
    case True
    then show ?thesis using assms i by simp
  next
    case False
    then show ?thesis using assms(1) i by (simp add: in_bounds_def)
  qed
qed

lemma mutate_gene_preserves:
  assumes "shaped I" "in_bounds I" "0 \<le> alpha" "alpha \<le> 1"
    and "- int (dim I) \<le> pos" "pos < int (dim I)"
  shows "\<exists>I'. mutate_gene exact_arithmetic I pos u alpha = Inr I' \<and> shaped I' \<and> in_bounds I'
           \<and> dim I' = dim I \<and> lbound I' = lbound I \<and> ubound I' = ubound I"
proof -
  from np_index_in_range[OF assms(5,6)] obtain k where k: "np_index (dim I) pos = Inr k" "k < dim I"
    by blast
  have len: "length (lbound I) = dim I" "length (ubound I) = dim I" "length (chrom I) = dim I"
    using assms(1) by (simp_all add: shaped_def)
  have kb: "lbound I ! k \<le> chrom I ! k" "chrom I ! k \<le> ubound I ! k"
    using assms(2) k(2) by (simp_all add: in_bounds_def)
  show ?thesis
  proof (cases "u < 1/2")
    case True
    let ?v = "chrom I ! k - (chrom I ! k - lbound I ! k) * alpha"
    have eq: "mutate_gene exact_arithmetic I pos u alpha = Inr (I\<lparr>chrom := (chrom I)[k := ?v]\<rparr>)"
      using True k len by (simp add: mutate_gene_def)
    have "lbound I ! k \<le> ?v" "?v \<le> ubound I ! k"
      using creep_down[OF kb(1) assms(3,4)] kb(2) by simp_all
    then have "in_bounds (I\<lparr>chrom := (chrom I)[k := ?v]\<rparr>)"
      using assms(2) len(3) by (intro in_bounds_update)
    then show ?thesis using eq len by (simp add: shaped_def)
  next
    case False
    let ?v = "chrom I ! k + (ubound I ! k - chrom I ! k) * alpha"
    have eq: "mutate_gene exact_arithmetic I pos u alpha = Inr (I\<lparr>chrom := (chrom I)[k := ?v]\<rparr>)"
      using False k len by (simp add: mutate_gene_def)
    have "lbound I ! k \<le> ?v" "?v \<le> ubound I ! k"
      using creep_up[OF kb(2) assms(3,4)] kb(1) by simp_all
    then have "in_bounds (I\<lparr>chrom := (chrom I)[k := ?v]\<rparr>)"
      using assms(2) len(3) by (intro in_bounds_update)
    then show ?thesis using eq len by (simp add: shaped_def)
  qed
qed

lemma mutate_preserves:
  assumes "0 \<le> alpha" "alpha \<le> 1"
  shows "shaped I \<Longrightarrow> in_bounds I \<Longrightarrow>
     (\<forall>(pos, u) \<in> set steps. - int (dim I) \<le> pos \<and> pos < int (dim I)) \<Longrightarrow>
     \<exists>I'. mutate exact_arithmetic I steps alpha = Inr I' \<and> shaped I' \<and> in_bounds I'
           \<and> dim I' = dim I \<and> lbound I' = lbound I \<and> ubound I' = ubound I"
proof (induction steps arbitrary: I)
  case Nil
  then show ?case by simp
next
  case (Cons s steps)
  obtain pos u where s: "s = (pos, u)" by (cases s)
  from Cons.prems s have r: "- int (dim I) \<le> pos" "pos < int (dim I)" by simp_all
  from mutate_gene_preserves[OF Cons.prems(1,2) assms r, of u]
  obtain J where J: "mutate_gene exact_arithmetic I pos u alpha = Inr J" "shaped J" "in_bounds J"
    "dim J = dim I" "lbound J = lbound I" "ubound J = ubound I" by blast
  have "\<forall>(pos, u) \<in> set steps. - int (dim J) \<le> pos \<and> pos < int (dim J)"
    using Cons.prems(3) J(4) by simp
  from Cons.IH[OF J(2,3) this] J s show ?case by simp
qed

lemma blend_value:
  assumes "length xa = n" "length xb = n" "length pos = n"
  shows "blend xa xb pos wa wb =
     Inr (map (\<lambda>i. if pos ! i then wa * xa ! i + wb * xb ! i else 0) [0..<n])"
proof -
  have "map2 (+) (np_scale (map2 (\<lambda>x p. x * of_bool p) xa pos) wa)
                 (np_scale (map2 (\<lambda>x p. x * of_bool p) xb pos) wb)
      = map (\<lambda>i. if pos ! i then wa * xa ! i + wb * xb ! i else 0) [0..<n]"
    using assms by (intro nth_equalityI) (simp_all add: np_scale_def)
  then show ?thesis
    using assms by (simp add: blend_def np_binop_same np_scale_def)
qed

lemma length_mask_of [simp]: "length (mask_of us d) = d"
  by (simp add: mask_of_def np_rand_def)

lemma length_blended [simp]: "length (blended a b pos wa wb) = dim a"
  by (simp add: blended_def)

lemma nth_blended:
  "i < dim a \<Longrightarrow> blended a b pos wa wb ! i = (if pos ! i then wa * chrom a ! i + wb * chrom b ! i else 0)"
  by (simp add: blended_def)

lemma cross_individuals_value:
  assumes "shaped a" "shaped b" "dim b = dim a"
  shows "cross_individuals a b alpha us =
     (if admissible a (blended a b (mask_of us (dim a)) alpha (1 - alpha))
      then (if admissible b (blended a b (mask_of us (dim a)) (1 - alpha) alpha)
            then Inr (a\<lparr>chrom := blended a b (mask_of us (dim a)) alpha (1 - alpha)\<rparr>,
                      b\<lparr>chrom := blended a b (mask_of us (dim a)) (1 - alpha) alpha\<rparr>)
            else Inl AssertionError)
      else Inl AssertionError)"
proof -
  let ?pos = "mask_of us (dim a)"
  have len: "length (chrom a) = dim a" "length (chrom b) = dim a"
    "length (lbound a) = dim a" "length (ubound a) = dim a"
    "length (lbound b) = dim b" "length (ubound b) = dim b"
    using assms by (simp_all add: shaped_def)
  have bl: "blend (chrom a) (chrom b) ?pos wa wb = Inr (blended a b ?pos wa wb)" for wa wb
    using blend_value[OF len(1,2) length_mask_of] by (simp add: blended_def)
  have ca: "chrom_setter (Individual (dim a) (lbound a) (ubound a) (constant_draws 0)) c
      = (if admissible a c then Inr (a\<lparr>chrom := c\<rparr>) else Inl AssertionError)" for c
    using chrom_setter_value[of "Individual (dim a) (lbound a) (ubound a) (constant_draws 0)" c] len
    by (simp add: Individual_def admissible_def)
  have cb: "chrom_setter (Individual (dim b) (lbound b) (ubound b) (constant_draws 0)) c
      = (if admissible b c then Inr (b\<lparr>chrom := c\<rparr>) else Inl AssertionError)" for c
    using chrom_setter_value[of "Individual (dim b) (lbound b) (ubound b) (constant_draws 0)" c] len
    by (simp add: Individual_def admissible_def)
  show ?thesis
    unfolding cross_individuals_def mask_of_def[symmetric] Let_def bl bind_err_Inr ca cb
    by simp
qed

lemma zero_gene_inadmissible:
  assumes "i < dim a" "\<not> pos ! i" "0 < lbound c ! i \<or> ubound c ! i < 0" "dim c = dim a"
  shows "\<not> admissible c (blended a b pos wa wb)"
proof
  assume "admissible c (blended a b pos wa wb)"
  then have "lbound c ! i \<le> blended a b pos wa wb ! i \<and> blended a b pos wa wb ! i \<le> ubound c ! i"
    using assms(1,4) by (simp add: admissible_def)
  then show False using assms(1,2,3) by (simp add: nth_blended)
qed

lemma evaluation_cache_after:
  "evaluation_cache (snd (evaluation P)) = Some (fst (evaluation P))"
  by (simp add: evaluation_def Let_def split: option.splits)

lemma evaluation_again:
  "evaluation (snd (evaluation P)) = (fst (evaluation P), snd (evaluation P))"
  by (simp add: evaluation_def Let_def split: option.splits)

lemma evaluation_fields:
  "psize (snd (evaluation P)) = psize P"
  "individuals (snd (evaluation P)) = individuals P"
  "heap (snd (evaluation P)) = heap P"
  "fun_evaluation (snd (evaluation P)) = fun_evaluation P"
  by (simp_all add: evaluation_def Let_def split: option.splits)

lemma fitness_eq:
  "fitness M P = (fitness_of M (fst (evaluation P)), snd (evaluation P))"
  by (simp add: fitness_def fitness_of_def Let_def evaluation_again split_beta)

lemma sum_list_shifted:
  fixes s :: real
  shows "sum_list (map (\<lambda>v. s - v) V) = real (length V) * s - sum_list V"
  by (induction V) (simp_all add: algebra_simps)

lemma sum_list_le_abs:
  fixes V :: "real list"
  shows "sum_list V \<le> sum_list (map abs V)"
  by (induction V) auto

lemma sum_list_abs_nonneg:
  fixes V :: "real list"
  shows "0 \<le> sum_list (map abs V)"
  by (induction V) auto

lemma sum_list_abs_pos:
  fixes V :: "real list"
  assumes "v \<in> set V" "v \<noteq> 0"
  shows "0 < sum_list (map abs V)"
  using assms
proof (induction V)
  case Nil
  then show ?case by simp
next
  case (Cons x V)
  have "0 \<le> sum_list (map abs V)" by (rule sum_list_abs_nonneg)
  show ?case
  proof (cases "v = x")
    case True
    then have "0 < \<bar>x\<bar>" using Cons.prems by simp
    then show ?thesis using \<open>0 \<le> sum_list (map abs V)\<close> by simp
  next
    case False
    then have "0 < sum_list (map abs V)" using Cons by simp
    then show ?thesis by simp
  qed
qed

lemma sum_list_lt_abs:
  fixes V :: "real list"
  assumes "v \<in> set V" "v < 0"
  shows "sum_list V < sum_list (map abs V)"
  using assms
proof (induction V)
  case Nil
  then show ?case by simp
next
  case (Cons x V)
  have le: "sum_list V \<le> sum_list (map abs V)" by (rule sum_list_le_abs)
  show ?case
  proof (cases "v = x")
    case True
    then have "x < \<bar>x\<bar>" using Cons.prems by simp
    then show ?thesis using le by simp
  next
    case False
    then have "sum_list V < sum_list (map abs V)" using Cons by simp
    moreover have "x \<le> \<bar>x\<bar>" by simp
    ultimately show ?thesis by simp
  qed
qed

lemma fitness_total_pos:
  fixes V :: "real list"
  assumes "(2 \<le> length V \<and> (\<exists>v \<in> set V. v \<noteq> 0)) \<or> (\<exists>v \<in> set V. v < 0)"
  shows "0 < fitness_total V"
proof -
  let ?S = "sum_list (map abs V)"
  have total: "fitness_total V = real (length V) * ?S - sum_list V"
    by (simp add: fitness_total_def sum_list_shifted)
  from assms show ?thesis
  proof
    assume a: "2 \<le> length V \<and> (\<exists>v \<in> set V. v \<noteq> 0)"
    then have S: "0 < ?S" using sum_list_abs_pos by blast
    have "2 * ?S \<le> real (length V) * ?S"
      using a S by (intro mult_right_mono) simp_all
    moreover have "sum_list V \<le> ?S" by (rule sum_list_le_abs)
    ultimately show ?thesis using S total by linarith
  next
    assume "\<exists>v \<in> set V. v < 0"
    then obtain v where v: "v \<in> set V" "v < 0" by blast
    then have lt: "sum_list V < ?S" by (rule sum_list_lt_abs)
    have "V \<noteq> []" using v by auto
    then have "1 \<le> real (length V)" by (cases V) simp_all
    moreover have "0 \<le> ?S" by (rule sum_list_abs_nonneg)
    ultimately have "1 * ?S \<le> real (length V) * ?S" by (intro mult_right_mono)
    then show ?thesis using lt total by linarith
  qed
qed

lemma fitness_of_defined:
  assumes "fitness_total V \<noteq> 0"
  shows "fitness_of exact_arithmetic V
           = map (\<lambda>v. Some ((sum_list (map abs V) - v) / fitness_total V)) V"
  using assms by (simp add: fitness_of_def fitness_total_def np_div_def Let_def comp_def)

lemma sum_list_divide:
  fixes c :: real
  shows "sum_list (map (\<lambda>v. f v / c) V) = sum_list (map f V) / c"
  by (induction V) (simp_all add: add_divide_distrib)

lemma fitness_sums_to_one:
  assumes "fitness_total V \<noteq> 0"
  shows "sum_list (map (\<lambda>v. (sum_list (map abs V) - v) / fitness_total V) V) = 1"
  using assms by (simp add: sum_list_divide fitness_total_def)

lemma fitness_component_nonneg:
  fixes V :: "real list"
  assumes "v \<in> set V"
  shows "0 \<le> sum_list (map abs V) - v"
  using assms
proof (induction V)
  case Nil
  then show ?case by simp
next
  case (Cons x V)
  have nn: "0 \<le> sum_list (map abs V)" by (rule sum_list_abs_nonneg)
  show ?case
  proof (cases "v = x")
    case True
    have "x \<le> \<bar>x\<bar>" by simp
    then show ?thesis using True nn by simp
  next
    case False
    then have "0 \<le> sum_list (map abs V) - v" using Cons by simp
    then show ?thesis by simp
  qed
qed

lemma map_err_length: "map_err f xs = Inr ys \<Longrightarrow> length ys = length xs"
proof (induction xs arbitrary: ys)
  case Nil
  then show ?case by simp
next
  case (Cons x xs)
  then show ?case
    by (auto simp: bind_err_def split: sum.splits)
qed

lemma map_err_total:
  "(\<And>x. x \<in> set xs \<Longrightarrow> f x = Inr (g x)) \<Longrightarrow> map_err f xs = Inr (map g xs)"
  by (induction xs) simp_all

lemma select_result:
  assumes "select M P us = Inr P'"
  shows "evaluation_cache P' = None" "length (individuals P') = psize P" "psize P' = psize P"
    "heap P' = heap P"
proof -
  obtain sel where sel: "map_err (\<lambda>i. list_get (individuals (snd (fitness M P)))
        (roulette_index (np_cumsum M (fst (fitness M P))) (us i))) [0..<psize (snd (fitness M P))] = Inr sel"
    and P': "P' = (snd (fitness M P))\<lparr>individuals := sel, evaluation_cache := None\<rparr>"
    using assms by (auto simp: select_def Let_def split_beta bind_err_def split: sum.splits)
  have ps: "psize (snd (fitness M P)) = psize P" "heap (snd (fitness M P)) = heap P"
    by (simp_all add: fitness_eq evaluation_fields)
  show "evaluation_cache P' = None" using P' by simp
  show "length (individuals P') = psize P" using map_err_length[OF sel] P' ps by simp
  show "psize P' = psize P" using P' ps by simp
  show "heap P' = heap P" using P' ps by simp
qed

lemma roulette_index_Some:
  "roulette_index (map Some cs) u = length (filter (\<lambda>c. c \<le> u) cs)"
  by (simp add: roulette_index_def np_ge_def filter_map comp_def)


lemma evaluation_wf:
  assumes "wf_population P"
  shows "fst (evaluation P) = evaluations P"
    "snd (evaluation P) = P\<lparr>evaluation_cache := Some (evaluations P)\<rparr>"
  using assms by (auto simp: wf_population_def evaluation_def evaluations_def Let_def split: option.splits)

lemma length_evaluations: "length (evaluations P) = length (individuals P)"
  by (simp add: evaluations_def)

lemma fitness_total_nonneg: "0 \<le> fitness_total V"
  unfolding fitness_total_def
proof (rule sum_list_nonneg)
  fix x assume "x \<in> set (map (\<lambda>v. sum_list (map abs V) - v) V)"
  then obtain v where "v \<in> set V" "x = sum_list (map abs V) - v" by auto
  then show "0 \<le> x" using fitness_component_nonneg[of v V] by simp
qed

lemma fitness_vector_sum: "fitness_total V \<noteq> 0 \<Longrightarrow> sum_list (fitness_vector V) = 1"
  by (simp add: fitness_vector_def fitness_sums_to_one)

lemma fitness_of_vector:
  "fitness_total V \<noteq> 0 \<Longrightarrow> fitness_of exact_arithmetic V = map Some (fitness_vector V)"
  by (simp add: fitness_of_defined fitness_vector_def comp_def)

lemma length_draw_without_replacement:
  "n \<le> length pool \<Longrightarrow> length (draw_without_replacement pool n r) = n"
proof (induction n arbitrary: pool r)
  case 0
  then show ?case by simp
next
  case (Suc n)
  then have ne: "pool \<noteq> []" by auto
  let ?k = "r 0 mod length pool"
  have k: "?k < length pool" using ne by simp
  then have "length (take ?k pool @ drop (Suc ?k) pool) = length pool - 1" by simp
  then have "n \<le> length (take ?k pool @ drop (Suc ?k) pool)" using Suc.prems by simp
  from Suc.IH[OF this] show ?case using ne by (simp add: Let_def)
qed

lemma np_choice_length: "np_choice pool n r = Inr chosen \<Longrightarrow> length chosen = n"
  by (auto simp: np_choice_def length_draw_without_replacement split: if_splits)

lemma crossover_result:
  assumes "crossover P rate alpha dr = Inr P'"
  shows "evaluation_cache P' = None" "length (individuals P') = psize P" "psize P' = psize P"
proof -
  from assms obtain h pool chosen where
    ch: "np_choice pool (psize P) (choice_draws dr) = Inr chosen"
    and P': "P' = P\<lparr>heap := h, individuals := chosen, evaluation_cache := None\<rparr>"
    by (auto simp: crossover_def Let_def bind_err_def split: sum.splits prod.splits)
  show "evaluation_cache P' = None" using P' by simp
  show "length (individuals P') = psize P" using np_choice_length[OF ch] P' by simp
  show "psize P' = psize P" using P' by simp
qed

lemma Population_mutate_result:
  assumes "Population_mutate M P num rate alpha dr = Inr P'"
  shows "evaluation_cache P' = None" "individuals P' = individuals P" "psize P' = psize P"
  using assms by (auto simp: Population_mutate_def Let_def bind_err_def split: sum.splits)

lemma mutate_each_none:
  assumes "\<forall>j. rate < rate_draws dr j"
  shows "mutate_each M num rate alpha dr j refs h = Inr h"
proof (induction refs arbitrary: j)
  case Nil
  then show ?case by simp
next
  case (Cons r refs)
  have "\<not> rate_draws dr j \<le> rate" using assms by (simp add: not_le)
  then show ?case using Cons by simp
qed

lemma cross_pairs_length:
  "cross_pairs rate alpha dr j pairs h pool = Inr (h', pool') \<Longrightarrow>
     length pool' = length pool + 2 * length pairs"
proof (induction pairs arbitrary: j h pool)
  case Nil
  then show ?case by simp
next
  case (Cons p pairs)
  obtain a b where p: "p = (a, b)" by (cases p)
  show ?case
  proof (cases "pair_draws dr j \<le> rate")
    case True
    with Cons.prems p obtain ca cb where
      "cross_pairs rate alpha dr (Suc j) pairs (h @ [ca, cb]) (pool @ [length h, Suc (length h)]) = Inr (h', pool')"
      by (auto simp: bind_err_def split: sum.splits)
    from Cons.IH[OF this] show ?thesis by simp
  next
    case False
    with Cons.prems p have
      "cross_pairs rate alpha dr (Suc j) pairs h (pool @ [a, b]) = Inr (h', pool')"
      by simp
    from Cons.IH[OF this] show ?thesis by simp
  qed
qed

lemma length_np_permutation: "length (np_permutation xs r) = length xs"
  by (simp add: np_permutation_def length_draw_without_replacement)

text \<open>The final choice of crossover never fails: the candidates are twice the population.\<close>

lemma crossover_choice_defined:
  assumes "length (individuals P) = psize P"
    and "cross_pairs rate alpha dr 0 (zip (individuals P) (np_permutation (individuals P) (permutation_draws dr))) (heap P) [] = Inr (h, pool)"
  shows "\<exists>P'. crossover P rate alpha dr = Inr P'"
proof -
  have "length pool = 2 * psize P"
    using cross_pairs_length[OF assms(2)] assms(1) by (simp add: length_np_permutation)
  then have "\<not> length pool < psize P" by simp
  then show ?thesis
    using assms(2) by (simp add: crossover_def Let_def np_choice_def)
qed


lemma all_less_2: "(\<forall>i<2::nat. P i) \<longleftrightarrow> P 0 \<and> P 1"
  by (auto simp: less_2_cases_iff)


text \<open>The selection for cumulative sums that are numbers.\<close>

lemma map_err_list_get:
  "map_err (\<lambda>i. list_get xs (k i)) js =
     (if \<forall>i \<in> set js. k i < length xs then Inr (map (\<lambda>i. xs ! k i) js) else Inl IndexError)"
proof (induction js)
  case Nil
  then show ?case by simp
next
  case (Cons j js)
  show ?case
  proof (cases "k j < length xs")
    case True
    then show ?thesis using Cons by (simp add: list_get_def)
  next
    case False
    then show ?thesis by (simp add: list_get_def)
  qed
qed

lemma length_cumsum_from [simp]: "length (cumsum_from M acc xs) = length xs"
  by (induction xs arbitrary: acc) simp_all

lemma length_np_cumsum [simp]: "length (np_cumsum M xs) = length xs"
  by (cases xs) simp_all

lemma length_fitness_of [simp]: "length (fitness_of M V) = length V"
  by (simp add: fitness_of_def Let_def)

lemma np_cumsum_Nil_iff: "np_cumsum M xs = [] \<longleftrightarrow> xs = []"
  by (cases xs) simp_all

lemma fitness_of_Nil_iff: "fitness_of M V = [] \<longleftrightarrow> V = []"
  by (simp add: fitness_of_def Let_def)




lemma select_count:
  assumes wf: "wf_population P"
    and cs: "np_cumsum M (fst (fitness M P)) = map Some C"
  shows "length C = psize P"
    and "select M P us =
      (if \<forall>i < psize P. length (filter (\<lambda>c. c \<le> us i) C) < psize P
       then Inr (P\<lparr>individuals := map (\<lambda>i. individuals P ! length (filter (\<lambda>c. c \<le> us i) C))
                                     [0..<psize P],
                  evaluation_cache := None\<rparr>)
       else Inl IndexError)"
proof -
  have "length (np_cumsum M (fst (fitness M P))) = psize P"
    using wf evaluation_wf(1)[OF wf] by (simp add: fitness_eq length_evaluations wf_population_def)
  then show len: "length C = psize P" using cs by simp
  have P1: "snd (fitness M P) = P\<lparr>evaluation_cache := Some (evaluations P)\<rparr>"
    using evaluation_wf(2)[OF wf] by (simp add: fitness_eq)
  have li: "length (individuals P) = psize P" using wf by (simp add: wf_population_def)
  have "select M P us =
      bind_err (map_err (\<lambda>i. list_get (individuals P) (length (filter (\<lambda>c. c \<le> us i) C)))
                  [0..<psize P])
        (\<lambda>sel. Inr (P\<lparr>individuals := sel, evaluation_cache := None\<rparr>))"
    by (simp add: select_def split_beta Let_def cs P1 roulette_index_Some)
  then show "select M P us =
      (if \<forall>i < psize P. length (filter (\<lambda>c. c \<le> us i) C) < psize P
       then Inr (P\<lparr>individuals := map (\<lambda>i. individuals P ! length (filter (\<lambda>c. c \<le> us i) C))
                                     [0..<psize P],
                  evaluation_cache := None\<rparr>)
       else Inl IndexError)"
    using li by (simp add: map_err_list_get)
qed

lemma filter_le_less:
  fixes C :: "real list"
  assumes "k < length C" "u < C ! k"
  shows "length (filter (\<lambda>c. c \<le> u) C) < length C"
proof (rule length_filter_less)
  show "C ! k \<in> set C" using assms(1) by simp
  show "\<not> C ! k \<le> u" using assms(2) by simp
qed

subsection \<open>The claims\<close>

text \<open>
  Claim C1 as stated does not hold. An individual with the bounds \<open>[-3, 0.1]\<close> (the float
  nearest to \<open>0.1\<close> is \<open>3602879701896397 / 2\<^sup>5\<^sup>5\<close>) and the gene \<open>-3\<close> is within its bounds. In
  binary64 the difference \<open>0.1 - (-3)\<close> is rounded up, and \<open>mutate\<close> with \<open>alpha = 1\<close> and a
  draw of at least \<open>1/2\<close> moves the gene to \<open>225179981368525 / 2\<^sup>5\<^sup>1\<close>, above the upper bound.
  And with a lower bound above the upper bound, which no constructor rejects, \<open>initialize\<close>
  yields a gene outside the bounds.
\<close>

theorem bounds_invariant_broken:
  "in_bounds boundary_individual
   \<and> mutate binary64_arithmetic boundary_individual [(0, 3/4)] 1
       = Inr (boundary_individual\<lparr>chrom := [225179981368525 / 2251799813685248]\<rparr>)
   \<and> \<not> in_bounds (boundary_individual\<lparr>chrom := [225179981368525 / 2251799813685248]\<rparr>)
   \<and> initialize binary64_arithmetic (Individual 1 [1] [0] (constant_draws 0)) (constant_draws 0)
       = Inr \<lparr>dim = 1, lbound = [1], ubound = [0], chrom = [1]\<rparr>
   \<and> \<not> in_bounds \<lparr>dim = 1, lbound = [1], ubound = [0], chrom = [1]\<rparr>"
proof -
  have a: "in_bounds boundary_individual"
    by (simp add: in_bounds_def boundary_individual_def)
  have b: "mutate binary64_arithmetic boundary_individual [(0, 3/4)] 1
       = Inr (boundary_individual\<lparr>chrom := [225179981368525 / 2251799813685248]\<rparr>)"
    by (simp add: mutate_gene_def np_index_def boundary_individual_def bind_err_def binary64_eval)
  have c: "\<not> in_bounds (boundary_individual\<lparr>chrom := [225179981368525 / 2251799813685248]\<rparr>)"
    by (simp add: in_bounds_def boundary_individual_def)
  have e: "initialize binary64_arithmetic (Individual 1 [1] [0] (constant_draws 0)) (constant_draws 0)
       = Inr \<lparr>dim = 1, lbound = [1], ubound = [0], chrom = [1]\<rparr>"
    by (simp add: initialize_def Individual_def np_rand_def np_binop_def constant_draws_def
        binary64_eval)
  have g: "\<not> in_bounds \<lparr>dim = 1, lbound = [1], ubound = [0], chrom = [1]\<rparr>"
    by (simp add: in_bounds_def)
  show ?thesis using a b c e g by blast
qed

text \<open>
  Claim C1, amended. For an individual whose bound vectors have its dimension:
  \<^item> \<open>initialize\<close> returns the individual with gene \<open>i\<close> set to
    \<open>lbound[i] + (ubound[i] - lbound[i]) * u\<^sub>i\<close>, each operation rounded, whatever the
    placeholder chromosome was; in exact arithmetic, with draws in \<open>[0, 1)\<close> and every lower
    bound at most its upper bound, the individual it returns is within its bounds;
  \<^item> in exact arithmetic, \<open>mutate\<close> with \<open>alpha\<close> in \<open>[0, 1]\<close> and positions of the chromosome,
    on an individual within its bounds, returns an individual within its bounds (the code
    has no clamping);
  \<^item> the setter accepts exactly the vectors of the individual's dimension with every
    component within the bounds, and raises \<^verbatim>\<open>AssertionError\<close> on every other vector.
\<close>

theorem bounds_invariant_maintained:
  assumes "length (lbound I) = dim I" and "length (ubound I) = dim I"
  shows "initialize M I us =
            Inr (I\<lparr>chrom := map (\<lambda>i. fl M (lbound I ! i + fl M (fl M (ubound I ! i - lbound I ! i) * us i)))
                               [0..<dim I]\<rparr>)
       \<and> ((\<forall>i < dim I. lbound I ! i \<le> ubound I ! i) \<and> (\<forall>k < dim I. 0 \<le> us k \<and> us k < 1) \<longrightarrow>
            (\<exists>I'. initialize exact_arithmetic I us = Inr I' \<and> shaped I' \<and> in_bounds I'
                 \<and> dim I' = dim I \<and> lbound I' = lbound I \<and> ubound I' = ubound I
                 \<and> (\<forall>i < dim I. chrom I' ! i = lbound I ! i + (ubound I ! i - lbound I ! i) * us i)))
       \<and> (shaped I \<and> in_bounds I \<and> 0 \<le> alpha \<and> alpha \<le> 1
            \<and> (\<forall>(pos, u) \<in> set steps. - int (dim I) \<le> pos \<and> pos < int (dim I)) \<longrightarrow>
            (\<exists>I'. mutate exact_arithmetic I steps alpha = Inr I' \<and> shaped I' \<and> in_bounds I'
                 \<and> dim I' = dim I \<and> lbound I' = lbound I \<and> ubound I' = ubound I))
       \<and> chrom_setter I c =
            (if length c = dim I \<and> (\<forall>i < dim I. lbound I ! i \<le> c ! i \<and> c ! i \<le> ubound I ! i)
             then Inr (I\<lparr>chrom := c\<rparr>) else Inl AssertionError)"
proof (intro conjI impI)
  show "initialize M I us =
      Inr (I\<lparr>chrom := map (\<lambda>i. fl M (lbound I ! i + fl M (fl M (ubound I ! i - lbound I ! i) * us i)))
                         [0..<dim I]\<rparr>)"
    by (rule initialize_value[OF assms])
next
  assume h: "(\<forall>i < dim I. lbound I ! i \<le> ubound I ! i) \<and> (\<forall>k < dim I. 0 \<le> us k \<and> us k < 1)"
  let ?c = "map (\<lambda>i. lbound I ! i + (ubound I ! i - lbound I ! i) * us i) [0..<dim I]"
  have "in_bounds (I\<lparr>chrom := ?c\<rparr>)"
    using h scaled_between by (simp add: in_bounds_def)
  moreover have "shaped (I\<lparr>chrom := ?c\<rparr>)"
    using assms by (simp add: shaped_def)
  ultimately show "\<exists>I'. initialize exact_arithmetic I us = Inr I' \<and> shaped I' \<and> in_bounds I'
       \<and> dim I' = dim I \<and> lbound I' = lbound I \<and> ubound I' = ubound I
       \<and> (\<forall>i < dim I. chrom I' ! i = lbound I ! i + (ubound I ! i - lbound I ! i) * us i)"
    using initialize_value[OF assms, of exact_arithmetic us] by simp
next
  assume h: "shaped I \<and> in_bounds I \<and> 0 \<le> alpha \<and> alpha \<le> 1
     \<and> (\<forall>(pos, u) \<in> set steps. - int (dim I) \<le> pos \<and> pos < int (dim I))"
  then show "\<exists>I'. mutate exact_arithmetic I steps alpha = Inr I' \<and> shaped I' \<and> in_bounds I'
       \<and> dim I' = dim I \<and> lbound I' = lbound I \<and> ubound I' = ubound I"
    using mutate_preserves[of alpha I steps] by blast
next
  show "chrom_setter I c =
      (if length c = dim I \<and> (\<forall>i < dim I. lbound I ! i \<le> c ! i \<and> c ! i \<le> ubound I ! i)
       then Inr (I\<lparr>chrom := c\<rparr>) else Inl AssertionError)"
    using chrom_setter_value[OF assms, of c] by (simp add: admissible_def)
qed

text \<open>
  The amended claim C1 at an individual in \<open>[-10, 10]\<^sup>2\<close>: an initialization with draws
  \<open>1/4\<close>, in binary64 and in exact arithmetic, a mutation of its first and last gene, a
  vector the setter refuses and one it accepts.
\<close>

theorem bounds_invariant_maintained_witness:
  "initialize binary64_arithmetic example_individual (constant_draws (1/4))
      = Inr (example_individual\<lparr>chrom := [- 5, - 5]\<rparr>)
   \<and> initialize exact_arithmetic example_individual (constant_draws (1/4))
      = Inr \<lparr>dim = 2, lbound = [- 10, - 10], ubound = [10, 10], chrom = [- 5, - 5]\<rparr>
   \<and> in_bounds \<lparr>dim = 2, lbound = [- 10, - 10], ubound = [10, 10], chrom = [- 5, - 5]\<rparr>
   \<and> in_bounds example_individual
   \<and> (\<exists>I'. mutate exact_arithmetic example_individual [(0, 1/4), (- 1, 3/4)] (1/2) = Inr I'
          \<and> in_bounds I')
   \<and> chrom_setter example_individual [20, 0] = Inl AssertionError
   \<and> chrom_setter example_individual [2, 3] = Inr (example_individual\<lparr>chrom := [2, 3]\<rparr>)"
proof -
  have len: "length (lbound example_individual) = dim example_individual"
    "length (ubound example_individual) = dim example_individual"
    by (simp_all add: example_individual_def)
  have ib: "in_bounds example_individual" "shaped example_individual"
    by (simp_all add: example_individual_def in_bounds_def shaped_def all_less_2)
  note t = bounds_invariant_maintained[OF len]
  have i64: "initialize binary64_arithmetic example_individual (constant_draws (1/4))
      = Inr (example_individual\<lparr>chrom := [- 5, - 5]\<rparr>)"
    using t[of binary64_arithmetic "constant_draws (1/4)" 0 "[]" "[]"]
    by (simp add: example_individual_def constant_draws_def upt_rec binary64_eval)
  have ord: "(\<forall>i < dim example_individual. lbound example_individual ! i \<le> ubound example_individual ! i)
     \<and> (\<forall>k < dim example_individual. 0 \<le> constant_draws (1/4 :: real) k \<and> constant_draws (1/4 :: real) k < 1)"
    by (simp add: example_individual_def all_less_2 constant_draws_def)
  from t[of exact_arithmetic "constant_draws (1/4)" 0 "[]" "[]"] ord
  obtain I' where I': "initialize exact_arithmetic example_individual (constant_draws (1/4)) = Inr I'"
    "in_bounds I'"
    "dim I' = dim example_individual" "lbound I' = lbound example_individual"
    "ubound I' = ubound example_individual"
    "\<forall>i < dim example_individual. chrom I' ! i
        = lbound example_individual ! i
          + (ubound example_individual ! i - lbound example_individual ! i) * constant_draws (1/4) i"
    "shaped I'"
    by blast
  have "length (chrom I') = 2" using I'(7,3) by (simp add: shaped_def example_individual_def)
  then have "chrom I' = [chrom I' ! 0, chrom I' ! 1]"
    by (cases "chrom I'"; cases "tl (chrom I')") auto
  then have "chrom I' = [- 5, - 5]"
    using I'(6) by (simp add: example_individual_def all_less_2 constant_draws_def)
  then have eq: "I' = \<lparr>dim = 2, lbound = [- 10, - 10], ubound = [10, 10], chrom = [- 5, - 5]\<rparr>"
    using I'(3,4,5) by (cases I') (simp add: example_individual_def)
  have steps: "\<forall>(pos, u) \<in> set [(0, 1/4), (- 1, 3/4 :: real)].
      - int (dim example_individual) \<le> pos \<and> pos < int (dim example_individual)"
    by (simp add: example_individual_def)
  from t[of exact_arithmetic "constant_draws 0" "1/2" "[(0, 1/4), (- 1, 3/4)]" "[]"] ib steps
  have m: "\<exists>I'. mutate exact_arithmetic example_individual [(0, 1/4), (- 1, 3/4)] (1/2) = Inr I'
      \<and> in_bounds I'"
    by auto
  have s1: "chrom_setter example_individual [20, 0] = Inl AssertionError"
    using t[of exact_arithmetic "constant_draws 0" 0 "[]" "[20, 0]"]
    by (simp add: example_individual_def all_less_2)
  have s2: "chrom_setter example_individual [2, 3] = Inr (example_individual\<lparr>chrom := [2, 3]\<rparr>)"
    using t[of exact_arithmetic "constant_draws 0" 0 "[]" "[2, 3]"]
    by (simp add: example_individual_def all_less_2)
  show ?thesis using i64 I'(1,2) eq ib(1) m s1 s2 by simp
qed

text \<open>
  Claim C2 as stated does not hold: two parents with bounds \<open>[1, 2]\<close> and a mask that is
  false at the gene have no children; the zero of the gene fails the setter's assertion.
\<close>

theorem cross_individuals_zero_out_of_bounds:
  "cross_individuals positive_individual positive_individual (1/2) (constant_draws (3/4))
     = Inl AssertionError"
  by (simp add: cross_individuals_def positive_individual_def np_rand_def constant_draws_def
        blend_def np_binop_def np_scale_def Individual_def chrom_setter_def np_all_def)

text \<open>
  Claim C2, amended. For parents \<open>a\<close>, \<open>b\<close> of one dimension \<open>D\<close> and every \<open>alpha\<close>, the mask
  has length \<open>D\<close> and is true at \<open>i\<close> exactly when draw \<open>i\<close> is at most \<open>0.5\<close>; the candidate
  chromosomes have, at every mask-true position, \<open>alpha*a[i] + (1-alpha)*b[i]\<close> for child A
  and \<open>(1-alpha)*a[i] + alpha*b[i]\<close> for child B, and exactly \<open>0\<close> at every mask-false
  position. \<open>cross_individuals\<close> returns the two children, with the bounds of \<open>a\<close> and of
  \<open>b\<close>, exactly when the candidate of A is within the bounds of \<open>a\<close> and that of B within the
  bounds of \<open>b\<close>; otherwise it raises \<^verbatim>\<open>AssertionError\<close>.
\<close>

theorem cross_individuals_children:
  assumes "shaped a" and "shaped b" and "dim b = dim a"
  shows "cross_individuals a b alpha us =
           (if admissible a (blended a b (mask_of us (dim a)) alpha (1 - alpha))
               \<and> admissible b (blended a b (mask_of us (dim a)) (1 - alpha) alpha)
            then Inr (\<lparr>dim = dim a, lbound = lbound a, ubound = ubound a,
                       chrom = blended a b (mask_of us (dim a)) alpha (1 - alpha)\<rparr>,
                      \<lparr>dim = dim b, lbound = lbound b, ubound = ubound b,
                       chrom = blended a b (mask_of us (dim a)) (1 - alpha) alpha\<rparr>)
            else Inl AssertionError)
       \<and> length (mask_of us (dim a)) = dim a
       \<and> (\<forall>i < dim a. mask_of us (dim a) ! i = (us i \<le> 1/2))
       \<and> (\<forall>i < dim a. mask_of us (dim a) ! i \<longrightarrow>
             blended a b (mask_of us (dim a)) alpha (1 - alpha) ! i
               = alpha * chrom a ! i + (1 - alpha) * chrom b ! i
           \<and> blended a b (mask_of us (dim a)) (1 - alpha) alpha ! i
               = (1 - alpha) * chrom a ! i + alpha * chrom b ! i)
       \<and> (\<forall>i < dim a. \<not> mask_of us (dim a) ! i \<longrightarrow>
             blended a b (mask_of us (dim a)) alpha (1 - alpha) ! i = 0
           \<and> blended a b (mask_of us (dim a)) (1 - alpha) alpha ! i = 0)"
proof -
  have "\<forall>i < dim a. mask_of us (dim a) ! i = (us i \<le> 1/2)"
    by (simp add: mask_of_def np_rand_def)
  moreover have "a\<lparr>chrom := c\<rparr> = \<lparr>dim = dim a, lbound = lbound a, ubound = ubound a, chrom = c\<rparr>"
    and "b\<lparr>chrom := c\<rparr> = \<lparr>dim = dim b, lbound = lbound b, ubound = ubound b, chrom = c\<rparr>" for c
    by simp_all
  ultimately show ?thesis
    using cross_individuals_value[OF assms, of alpha us] by (simp add: nth_blended)
qed

text \<open>
  The amended claim C2 at two parents in \<open>[-10, 10]\<^sup>2\<close>, \<open>alpha = 1/4\<close> and a mask that is true
  everywhere.
\<close>

theorem cross_individuals_children_witness:
  "shaped example_individual \<and> shaped example_partner
   \<and> dim example_partner = dim example_individual
   \<and> cross_individuals example_individual example_partner (1/4) (constant_draws (1/2))
       = Inr (\<lparr>dim = 2, lbound = [- 10, - 10], ubound = [10, 10], chrom = [1/4, 3/4]\<rparr>,
              \<lparr>dim = 2, lbound = [- 10, - 10], ubound = [10, 10], chrom = [3/4, 1/4]\<rparr>)"
proof -
  have sh: "shaped example_individual" "shaped example_partner"
    "dim example_partner = dim example_individual"
    by (simp_all add: shaped_def example_individual_def example_partner_def)
  have m: "mask_of (constant_draws (1/2)) (dim example_individual) = [True, True]"
    by (simp add: mask_of_def np_rand_def constant_draws_def example_individual_def upt_rec)
  have b1: "blended example_individual example_partner [True, True] (1/4) (1 - 1/4) = [1/4, 3/4]"
    and b2: "blended example_individual example_partner [True, True] (1 - 1/4) (1/4) = [3/4, 1/4]"
    by (simp_all add: blended_def example_individual_def example_partner_def upt_rec)
  have ad: "admissible example_individual [1/4, 3/4]" "admissible example_partner [3/4, 1/4]"
    by (simp_all add: admissible_def example_individual_def example_partner_def all_less_2)
  have f: "dim example_individual = 2" "lbound example_individual = [- 10, - 10]"
    "ubound example_individual = [10, 10]" "dim example_partner = 2"
    "lbound example_partner = [- 10, - 10]" "ubound example_partner = [10, 10]"
    by (simp_all add: example_individual_def example_partner_def)
  show ?thesis
    using cross_individuals_children[OF sh, of "1/4" "constant_draws (1/2)"] sh
    unfolding m b1 b2 using ad f by simp
qed

text \<open>
  Claim C10. For parents of one dimension, a mask that is false at a gene \<open>i\<close> where the
  bounds of a parent exclude \<open>0\<close> makes \<open>cross_individuals\<close> raise \<^verbatim>\<open>AssertionError\<close>; and
  when \<open>cross_individuals\<close> returns children, the bounds of both parents contain \<open>0\<close> at
  every mask-false gene.
\<close>

theorem cross_individuals_zero_gene_rejected:
  assumes "shaped a" and "shaped b" and "dim b = dim a"
  shows "(\<forall>i < dim a. \<not> mask_of us (dim a) ! i
            \<and> (0 < lbound a ! i \<or> ubound a ! i < 0 \<or> 0 < lbound b ! i \<or> ubound b ! i < 0) \<longrightarrow>
            cross_individuals a b alpha us = Inl AssertionError)
       \<and> (\<forall>child_a child_b. cross_individuals a b alpha us = Inr (child_a, child_b) \<longrightarrow>
            (\<forall>i < dim a. \<not> mask_of us (dim a) ! i \<longrightarrow>
               lbound a ! i \<le> 0 \<and> 0 \<le> ubound a ! i \<and> lbound b ! i \<le> 0 \<and> 0 \<le> ubound b ! i))"
proof -
  let ?pos = "mask_of us (dim a)"
  have rej: "cross_individuals a b alpha us = Inl AssertionError"
    if "i < dim a" "\<not> ?pos ! i"
      "0 < lbound a ! i \<or> ubound a ! i < 0 \<or> 0 < lbound b ! i \<or> ubound b ! i < 0" for i
  proof -
    from that(3) consider "0 < lbound a ! i \<or> ubound a ! i < 0" | "0 < lbound b ! i \<or> ubound b ! i < 0"
      by blast
    then show ?thesis
    proof cases
      case 1
      have "\<not> admissible a (blended a b ?pos alpha (1 - alpha))"
        using that(1,2) 1 by (intro zero_gene_inadmissible) simp_all
      then show ?thesis using cross_individuals_value[OF assms, of alpha us] by simp
    next
      case 2
      have "\<not> admissible b (blended a b ?pos (1 - alpha) alpha)"
        using that(1,2) 2 assms(3) by (intro zero_gene_inadmissible) simp_all
      then show ?thesis using cross_individuals_value[OF assms, of alpha us] by simp
    qed
  qed
  show ?thesis
  proof (intro conjI allI impI)
    fix i assume "i < dim a"
      and "\<not> ?pos ! i \<and> (0 < lbound a ! i \<or> ubound a ! i < 0 \<or> 0 < lbound b ! i \<or> ubound b ! i < 0)"
    then show "cross_individuals a b alpha us = Inl AssertionError" using rej by blast
  next
    fix child_a child_b i
    assume r: "cross_individuals a b alpha us = Inr (child_a, child_b)" and i: "i < dim a" "\<not> ?pos ! i"
    have "\<not> (0 < lbound a ! i \<or> ubound a ! i < 0 \<or> 0 < lbound b ! i \<or> ubound b ! i < 0)"
    proof
      assume "0 < lbound a ! i \<or> ubound a ! i < 0 \<or> 0 < lbound b ! i \<or> ubound b ! i < 0"
      from rej[OF i this] r show False by simp
    qed
    then show "lbound a ! i \<le> 0" "0 \<le> ubound a ! i" "lbound b ! i \<le> 0" "0 \<le> ubound b ! i"
      by (simp_all add: not_less)
  qed
qed

text \<open>
  Claim C10 at a parent with bounds \<open>[1, 2]\<close>, which is rejected, and at two parents in
  \<open>[-10, 10]\<^sup>2\<close> with a mask that is false everywhere, which have the children \<open>[0, 0]\<close>.
\<close>

theorem cross_individuals_zero_gene_rejected_witness:
  "shaped positive_individual \<and> \<not> mask_of (constant_draws (3/4)) (dim positive_individual) ! 0
   \<and> 0 < lbound positive_individual ! 0
   \<and> cross_individuals positive_individual positive_individual (1/2) (constant_draws (3/4))
       = Inl AssertionError
   \<and> cross_individuals example_individual example_partner (1/4) (constant_draws (3/4))
       = Inr (example_individual\<lparr>chrom := [0, 0]\<rparr>, example_partner\<lparr>chrom := [0, 0]\<rparr>)
   \<and> lbound example_individual ! 0 \<le> 0 \<and> 0 \<le> ubound example_individual ! 0"
proof -
  have sh: "shaped positive_individual" "dim positive_individual = dim positive_individual"
    by (simp_all add: shaped_def positive_individual_def)
  have m: "\<not> mask_of (constant_draws (3/4)) (dim positive_individual) ! 0"
    by (simp add: mask_of_def np_rand_def constant_draws_def positive_individual_def)
  have lb: "0 < lbound positive_individual ! 0" "0 < dim positive_individual"
    by (simp_all add: positive_individual_def)
  have r1: "cross_individuals positive_individual positive_individual (1/2) (constant_draws (3/4))
       = Inl AssertionError"
    using cross_individuals_zero_gene_rejected[OF sh(1) sh(1) sh(2), of "constant_draws (3/4)" "1/2"]
      m lb by blast
  have sh2: "shaped example_individual" "shaped example_partner"
    "dim example_partner = dim example_individual"
    by (simp_all add: shaped_def example_individual_def example_partner_def)
  have r2: "cross_individuals example_individual example_partner (1/4) (constant_draws (3/4))
       = Inr (example_individual\<lparr>chrom := [0, 0]\<rparr>, example_partner\<lparr>chrom := [0, 0]\<rparr>)"
    by (simp add: cross_individuals_def example_individual_def example_partner_def np_rand_def
        constant_draws_def blend_def np_binop_def np_scale_def Individual_def chrom_setter_def
        np_all_def upt_rec Let_def)
  have m2: "\<not> mask_of (constant_draws (3/4)) (dim example_individual) ! 0" "0 < dim example_individual"
    by (simp_all add: mask_of_def np_rand_def constant_draws_def example_individual_def upt_rec)
  from cross_individuals_zero_gene_rejected[OF sh2, of "constant_draws (3/4)" "1/4"] r2 m2
  have "lbound example_individual ! 0 \<le> 0 \<and> 0 \<le> ubound example_individual ! 0"
    by blast
  then show ?thesis using sh(1) m lb(1) r1 r2 by simp
qed

text \<open>
  Claim C3 as stated does not hold: for a population of one individual whose evaluation
  is \<open>1\<close>, not uniformly zero, the divisor \<open>|1| - 1\<close> is zero and the fitness is not a number,
  in exact arithmetic and in binary64, so it does not sum to \<open>1\<close>.
\<close>

theorem fitness_single_positive:
  "fst (evaluation single_population) = [1]
   \<and> fst (fitness exact_arithmetic single_population) = [None]
   \<and> fst (fitness binary64_arithmetic single_population) = [None]"
proof -
  have a: "fst (evaluation single_population) = [1]"
    by (simp add: evaluation_def Let_def single_population_def positive_individual_def)
  have b: "fst (fitness exact_arithmetic single_population) = [None]"
    by (simp add: fitness_def evaluation_def np_div_def Let_def single_population_def
        positive_individual_def)
  have c: "fst (fitness binary64_arithmetic single_population) = [None]"
    by (simp add: fitness_def evaluation_def np_div_def single_population_def
        positive_individual_def binary64_eval)
  show ?thesis using a b c by blast
qed

text \<open>
  Claim C3, amended. For every population whose evaluation vector \<open>V\<close> has a negative
  component, or has at least two components and is not uniformly zero, the fitness is the
  vector with components \<open>(sum(|V|) - V\<^sub>i)\<close> divided by the sum of those components, and it
  sums to \<open>1\<close> (in exact arithmetic).
\<close>

theorem fitness_normalised:
  assumes "V = fst (evaluation P)"
    and "(2 \<le> length V \<and> (\<exists>v \<in> set V. v \<noteq> 0)) \<or> (\<exists>v \<in> set V. v < 0)"
  shows "fst (fitness exact_arithmetic P) = map Some (fitness_vector V)
       \<and> length (fitness_vector V) = length V
       \<and> (\<forall>i < length V. fitness_vector V ! i
             = (sum_list (map abs V) - V ! i) / sum_list (map (\<lambda>v. sum_list (map abs V) - v) V))
       \<and> sum_list (fitness_vector V) = 1"
proof -
  have pos: "fitness_total V \<noteq> 0" using fitness_total_pos[OF assms(2)] by simp
  have "fst (fitness exact_arithmetic P) = map Some (fitness_vector V)"
    using fitness_of_vector[OF pos] assms(1) by (simp add: fitness_eq)
  moreover have "\<forall>i < length V. fitness_vector V ! i
      = (sum_list (map abs V) - V ! i) / sum_list (map (\<lambda>v. sum_list (map abs V) - v) V)"
    by (simp add: fitness_vector_def fitness_total_def)
  ultimately show ?thesis
    using fitness_vector_sum[OF pos] by (simp add: fitness_vector_def)
qed

text \<open>
  The amended claim C3 at a population of two individuals that both evaluate to \<open>1\<close>.
\<close>

theorem fitness_normalised_witness:
  "fst (evaluation example_population) = [1, 1]
   \<and> fst (fitness exact_arithmetic example_population) = [Some (1/2), Some (1/2)]
   \<and> sum_list (fitness_vector [1, 1]) = 1"
proof -
  have V: "fst (evaluation example_population) = [1, 1]"
    by (simp add: evaluation_def Let_def example_population_def example_individual_def
        example_partner_def)
  have h: "(2 \<le> length [1, 1 :: real] \<and> (\<exists>v \<in> set [1, 1 :: real]. v \<noteq> 0))
      \<or> (\<exists>v \<in> set [1, 1 :: real]. v < 0)"
    by simp
  have fv: "fitness_vector [1, 1] = [1/2, 1/2]"
    by (simp add: fitness_vector_def fitness_total_def)
  show ?thesis
    using fitness_normalised[OF V[symmetric] h] V by (simp add: fv)
qed

lemma wf_example: "wf_population example_population"
  by (simp add: wf_population_def example_population_def)

lemma fitness_example:
  "fst (fitness binary64_arithmetic example_population) = [Some (1/2), Some (1/2)]"
  by (simp add: fitness_def evaluation_def np_div_def example_population_def
      example_individual_def example_partner_def binary64_eval)

lemma cumsum_example:
  "np_cumsum binary64_arithmetic (fst (fitness binary64_arithmetic example_population))
     = map Some [1/2, 1]"
  unfolding fitness_example by (simp add: np_add_def binary64_eval)







text \<open>
  Claim C4. A call of \<open>select\<close> or of \<open>crossover\<close> that returns leaves exactly \<open>psize\<close>
  individuals and the same \<open>psize\<close>. \<open>select\<close> returns whenever the fitness is defined and
  every draw is below one of its cumulative sums; \<open>crossover\<close> on \<open>psize\<close> individuals
  returns unless crossing a pair raises: the final choice of \<open>psize\<close> among the candidates
  never does.
\<close>

theorem select_crossover_preserve_size:
  "(select M P us = Inr P1 \<longrightarrow> length (individuals P1) = psize P \<and> psize P1 = psize P)
   \<and> (crossover P rate alpha dr = Inr P2 \<longrightarrow> length (individuals P2) = psize P \<and> psize P2 = psize P)
   \<and> (wf_population P \<and> np_cumsum M (fst (fitness M P)) = map Some C
        \<and> (\<forall>i < psize P. \<exists>k < psize P. us i < C ! k) \<longrightarrow>
        (\<exists>P'. select M P us = Inr P'))
   \<and> (length (individuals P) = psize P \<longrightarrow>
        (\<exists>P'. crossover P rate alpha dr = Inr P')
        \<or> (\<exists>e. cross_pairs rate alpha dr 0
                 (zip (individuals P) (np_permutation (individuals P) (permutation_draws dr)))
                 (heap P) [] = Inl e))"
proof (intro conjI impI)
  assume "select M P us = Inr P1"
  then show "length (individuals P1) = psize P" "psize P1 = psize P"
    by (simp_all add: select_result)
next
  assume "crossover P rate alpha dr = Inr P2"
  then show "length (individuals P2) = psize P" "psize P2 = psize P"
    by (simp_all add: crossover_result)
next
  assume h: "wf_population P \<and> np_cumsum M (fst (fitness M P)) = map Some C
      \<and> (\<forall>i < psize P. \<exists>k < psize P. us i < C ! k)"
  then have wf: "wf_population P" and cs: "np_cumsum M (fst (fitness M P)) = map Some C"
    and dr: "\<forall>i < psize P. \<exists>k < psize P. us i < C ! k"
    by blast+
  have len: "length C = psize P" by (rule select_count(1)[OF wf cs])
  have "length (filter (\<lambda>c. c \<le> us i) C) < psize P" if "i < psize P" for i
  proof -
    from dr that obtain k where "k < psize P" "us i < C ! k" by blast
    then show ?thesis using filter_le_less[of k C "us i"] len by simp
  qed
  then show "\<exists>P'. select M P us = Inr P'"
    using select_count(2)[OF wf cs, of us] by simp
next
  assume len: "length (individuals P) = psize P"
  let ?r = "cross_pairs rate alpha dr 0
     (zip (individuals P) (np_permutation (individuals P) (permutation_draws dr))) (heap P) []"
  show "(\<exists>P'. crossover P rate alpha dr = Inr P') \<or> (\<exists>e. ?r = Inl e)"
  proof (cases ?r)
    case (Inl e)
    then show ?thesis by blast
  next
    case (Inr hp)
    then obtain h pool where "?r = Inr (h, pool)" by (cases hp) simp
    from crossover_choice_defined[OF len this] show ?thesis by blast
  qed
qed

lemma crossover_example:
  "crossover example_population (9/10) (1/4) example_crossover_draws
     = Inr \<lparr>fun_evaluation = sum_list, psize = 2,
            heap = [example_individual, example_partner,
                    example_individual\<lparr>chrom := [1/4, 3/4]\<rparr>, example_partner\<lparr>chrom := [3/4, 1/4]\<rparr>,
                    example_partner\<lparr>chrom := [3/4, 1/4]\<rparr>, example_individual\<lparr>chrom := [1/4, 3/4]\<rparr>],
            individuals = [2, 3], evaluation_cache = None\<rparr>"
  by (simp add: crossover_def example_population_def example_crossover_draws_def np_permutation_def
      constant_draws_def Let_def np_choice_def numeral_2_eq_2
      cross_individuals_def example_individual_def example_partner_def np_rand_def
      blend_def np_binop_def np_scale_def Individual_def chrom_setter_def np_all_def upt_rec)

text \<open>
  Claim C4 at the population of two individuals: a selection in binary64 with draws of
  \<open>1/4\<close>, below the cumulative sums \<open>[1/2, 1]\<close>, and a crossover in which both pairs are
  crossed.
\<close>

theorem select_crossover_preserve_size_witness:
  "select binary64_arithmetic example_population (constant_draws (1/4))
     = Inr (example_population\<lparr>individuals := [0, 0]\<rparr>)
   \<and> length (individuals (example_population\<lparr>individuals := [0, 0]\<rparr>)) = psize example_population
   \<and> np_cumsum binary64_arithmetic (fst (fitness binary64_arithmetic example_population))
       = map Some [1/2, 1]
   \<and> (\<exists>P'. select binary64_arithmetic example_population (constant_draws (1/4)) = Inr P')
   \<and> (\<exists>P2. crossover example_population (9/10) (1/4) example_crossover_draws = Inr P2
          \<and> length (individuals P2) = psize example_population)"
proof -
  have s: "select binary64_arithmetic example_population (constant_draws (1/4))
      = Inr (example_population\<lparr>individuals := [0, 0]\<rparr>)"
    using select_count(2)[OF wf_example cumsum_example, of "constant_draws (1/4)"]
    by (simp add: example_population_def constant_draws_def upt_rec)
  note c = crossover_example
  have dr: "\<forall>i < psize example_population. \<exists>k < psize example_population.
      constant_draws (1/4 :: real) i < [1/2, 1] ! k"
    by (auto simp: example_population_def constant_draws_def intro: exI[of _ 0])
  from select_crossover_preserve_size[of binary64_arithmetic example_population
      "constant_draws (1/4)" "example_population\<lparr>individuals := [0, 0]\<rparr>" "9/10" "1/4"
      example_crossover_draws _ "[1/2, 1]"] s c wf_example cumsum_example dr
  show ?thesis by simp
qed

text \<open>
  Claim C7. After a call of \<open>select\<close>, \<open>crossover\<close> or \<open>Population_mutate\<close> that returns, the
  evaluation cache is absent; \<open>Population_mutate\<close> clears it also when no draw reaches the
  mutation rate, in which case nothing else of the population changes.
\<close>

theorem operators_clear_cache:
  "(select M P us = Inr P1 \<longrightarrow> evaluation_cache P1 = None)
   \<and> (crossover P rate alpha cdr = Inr P2 \<longrightarrow> evaluation_cache P2 = None)
   \<and> (Population_mutate M P num mrate malpha mdr = Inr P3 \<longrightarrow> evaluation_cache P3 = None)
   \<and> ((\<forall>j. mrate < rate_draws mdr j) \<longrightarrow>
        Population_mutate M P num mrate malpha mdr = Inr (P\<lparr>evaluation_cache := None\<rparr>))"
proof (intro conjI impI)
  assume "select M P us = Inr P1"
  then show "evaluation_cache P1 = None" by (rule select_result(1))
next
  assume "crossover P rate alpha cdr = Inr P2"
  then show "evaluation_cache P2 = None" by (rule crossover_result(1))
next
  assume "Population_mutate M P num mrate malpha mdr = Inr P3"
  then show "evaluation_cache P3 = None" by (rule Population_mutate_result(1))
next
  assume "\<forall>j. mrate < rate_draws mdr j"
  then have "mutate_each M num mrate malpha mdr 0 (individuals P) (heap P) = Inr (heap P)"
    by (rule mutate_each_none)
  then show "Population_mutate M P num mrate malpha mdr = Inr (P\<lparr>evaluation_cache := None\<rparr>)"
    by (simp add: Population_mutate_def Let_def)
qed

lemma wf_evaluated: "wf_population evaluated_population"
  by (simp add: wf_population_def evaluated_population_def example_population_def evaluations_def
      example_individual_def example_partner_def)

lemma cumsum_evaluated:
  "np_cumsum binary64_arithmetic (fst (fitness binary64_arithmetic evaluated_population))
     = map Some [1/2, 1]"
proof -
  have "fst (fitness binary64_arithmetic evaluated_population) = [Some (1/2), Some (1/2)]"
    by (simp add: fitness_def evaluation_def np_div_def example_population_def
        evaluated_population_def binary64_eval)
  then show ?thesis by (simp add: np_add_def binary64_eval)
qed

lemma select_evaluated:
  "select binary64_arithmetic evaluated_population (constant_draws (1/4))
     = Inr (example_population\<lparr>individuals := [0, 0]\<rparr>)"
  using select_count(2)[OF wf_evaluated cumsum_evaluated, of "constant_draws (1/4)"]
  by (simp add: example_population_def evaluated_population_def constant_draws_def upt_rec)

lemma crossover_evaluated:
  "\<exists>P2. crossover evaluated_population (9/10) (1/4) example_crossover_draws = Inr P2"
  by (simp add: crossover_def example_population_def evaluated_population_def
      example_crossover_draws_def np_permutation_def
      constant_draws_def Let_def np_choice_def numeral_2_eq_2
      cross_individuals_def example_individual_def example_partner_def np_rand_def
      blend_def np_binop_def np_scale_def Individual_def chrom_setter_def np_all_def upt_rec)

lemma mutate_evaluated:
  "Population_mutate binary64_arithmetic evaluated_population 1 (9/10) (1/2) example_mutate_draws
     = Inr (example_population\<lparr>heap := [example_individual\<lparr>chrom := [- 9/2, 0]\<rparr>,
                                          example_partner\<lparr>chrom := [- 5, 1]\<rparr>]\<rparr>)"
  by (simp add: Population_mutate_def example_population_def evaluated_population_def
      example_mutate_draws_def constant_draws_def np_choice_range_def np_choice_def
      example_individual_def example_partner_def mutate_gene_def np_index_def upt_rec
      binary64_eval)

text \<open>
  Claim C7 at a population with a filled cache, in binary64: a selection, a crossover, a
  mutation of both individuals, and a mutation in which no individual is mutated.
\<close>

theorem operators_clear_cache_witness:
  "evaluation_cache evaluated_population = Some [1, 1]
   \<and> select binary64_arithmetic evaluated_population (constant_draws (1/4))
       = Inr (example_population\<lparr>individuals := [0, 0]\<rparr>)
   \<and> evaluation_cache (example_population\<lparr>individuals := [0, 0]\<rparr>) = None
   \<and> (\<exists>P2. crossover evaluated_population (9/10) (1/4) example_crossover_draws = Inr P2
          \<and> evaluation_cache P2 = None)
   \<and> (\<exists>P3. Population_mutate binary64_arithmetic evaluated_population 1 (9/10) (1/2)
             example_mutate_draws = Inr P3
          \<and> evaluation_cache P3 = None)
   \<and> Population_mutate binary64_arithmetic evaluated_population 1 (1/10) (1/2) example_mutate_draws
       = Inr example_population"
proof -
  have none: "\<forall>j. (1/10 :: real) < rate_draws example_mutate_draws j"
    by (simp add: example_mutate_draws_def constant_draws_def)
  have restored: "evaluated_population\<lparr>evaluation_cache := None\<rparr> = example_population"
    by (simp add: evaluated_population_def example_population_def)
  obtain P2 where P2: "crossover evaluated_population (9/10) (1/4) example_crossover_draws = Inr P2"
    using crossover_evaluated by blast
  from operators_clear_cache[of binary64_arithmetic evaluated_population "constant_draws (1/4)"
      "example_population\<lparr>individuals := [0, 0]\<rparr>" "9/10" "1/4" example_crossover_draws P2
      1 "9/10" "1/2" example_mutate_draws
      "example_population\<lparr>heap := [example_individual\<lparr>chrom := [- 9/2, 0]\<rparr>,
                                   example_partner\<lparr>chrom := [- 5, 1]\<rparr>]\<rparr>"]
    select_evaluated P2 mutate_evaluated
  have a: "evaluation_cache (example_population\<lparr>individuals := [0, 0]\<rparr>) = None"
    "evaluation_cache P2 = None"
    "evaluation_cache (example_population\<lparr>heap := [example_individual\<lparr>chrom := [- 9/2, 0]\<rparr>,
                                   example_partner\<lparr>chrom := [- 5, 1]\<rparr>]\<rparr>) = None"
    by simp_all
  from operators_clear_cache[of binary64_arithmetic evaluated_population "constant_draws (1/4)"
      "example_population\<lparr>individuals := [0, 0]\<rparr>" "9/10" "1/4" example_crossover_draws P2
      1 "1/10" "1/2" example_mutate_draws example_population] none restored
  have b: "Population_mutate binary64_arithmetic evaluated_population 1 (1/10) (1/2)
       example_mutate_draws = Inr example_population"
    by simp
  have c: "evaluation_cache evaluated_population = Some [1, 1]"
    by (simp add: evaluated_population_def)
  show ?thesis using a b c select_evaluated P2 mutate_evaluated by simp
qed

lemma py_pow_bounds:
  assumes "0 \<le> u" "u < 1" "0 \<le> y"
  shows "0 \<le> py_pow u y" "py_pow u y \<le> 1"
proof -
  show "0 \<le> py_pow u y" by (simp add: py_pow_def)
  show "py_pow u y \<le> 1"
  proof (cases "y = 0 \<or> u = 0")
    case True
    then show ?thesis by (auto simp: py_pow_def)
  next
    case False
    then have "u powr y \<le> 1" using assms by (intro powr_le1) simp_all
    then show ?thesis using False by (simp add: py_pow_def)
  qed
qed

lemma py_pow_antimono:
  assumes "0 \<le> u" "u < 1" "0 \<le> x" "x \<le> y"
  shows "py_pow u y \<le> py_pow u x"
proof (cases "u = 0")
  case True
  then show ?thesis using assms by (auto simp: py_pow_def)
next
  case False
  show ?thesis
  proof (cases "x = 0")
    case True
    then show ?thesis using py_pow_bounds(2)[OF assms(1,2), of y] assms by (simp add: py_pow_def)
  next
    case x: False
    then have "y \<noteq> 0" using assms by simp
    moreover have "u powr y \<le> u powr x" using assms by (intro powr_mono') simp_all
    ultimately show ?thesis using False x by (simp add: py_pow_def)
  qed
qed

lemma exponent_range:
  assumes "1 \<le> g" "g \<le> G"
  shows "0 \<le> 1 - real_of_int g / real_of_int G"
proof -
  have "0 < real_of_int G" using assms by simp
  then have "real_of_int g / real_of_int G \<le> 1" using assms by (simp add: divide_le_eq)
  then show ?thesis by simp
qed

lemma exponent_antimono:
  assumes "1 \<le> g" "g \<le> g'" "g' \<le> G"
  shows "1 - real_of_int g' / real_of_int G \<le> 1 - real_of_int g / real_of_int G"
proof -
  have "0 < real_of_int G" using assms by simp
  then have "real_of_int g / real_of_int G \<le> real_of_int g' / real_of_int G"
    using assms by (simp add: divide_right_mono)
  then show ?thesis by simp
qed

text \<open>
  Claim C5 as stated does not hold: in the last generation the exponent is \<open>0\<close> and the
  magnitude is \<open>0\<close>, below its value in the middle of the run; it does not trend toward \<open>1\<close>.
\<close>

theorem magnitude_final_generation:
  "mutation_magnitude (1/2) 10 10 = 0 \<and> mutation_magnitude (1/2) 10 10 < mutation_magnitude (1/2) 5 10"
proof -
  have a: "mutation_magnitude (1/2) 10 10 = 0"
    by (simp add: mutation_magnitude_def py_pow_def)
  have "sqrt (1/2 :: real) < 1" by (simp add: real_sqrt_lt_1_iff)
  then have "(1/2 :: real) powr (1/2) < 1" by (simp add: powr_half_sqrt)
  then have "0 < mutation_magnitude (1/2) 5 10"
    by (simp add: mutation_magnitude_def py_pow_def)
  then show ?thesis using a by simp
qed

text \<open>
  Claim C5, amended. In the loop of \<open>solve\<close> the magnitude passed to the mutation of
  generation \<open>g\<close> of \<open>G\<close> is \<open>1 - U^(1 - g/G)\<close> for the draw \<open>U\<close> of that generation. For \<open>U\<close> in
  \<open>[0, 1)\<close> it lies in \<open>[0, 1]\<close>, it never increases with \<open>g\<close>, and it is \<open>0\<close> at \<open>g = G\<close>: the
  magnitude trends toward \<open>0\<close> as \<open>g\<close> approaches \<open>G\<close>.
\<close>

theorem magnitude_schedule:
  "generation M prm dr g P =
      bind_err (select M P (select_draws dr)) (\<lambda>P1.
      bind_err (crossover P1 (crossover_rate prm) (crossover_alpha prm) (cross_draws dr)) (\<lambda>P2.
      bind_err (np_randint (var_dim prm) (count_draw dr)) (\<lambda>n.
      Population_mutate M P2 (n + 1) (mutation_rate prm)
        (mutation_magnitude (magnitude_draw dr) g (max_generation prm)) (mut_draws dr))))
   \<and> (1 \<le> g \<and> g < G \<and> 0 < u \<and> u < 1 \<longrightarrow>
        mutation_magnitude u g G = 1 - u powr (1 - real_of_int g / real_of_int G))
   \<and> (1 \<le> G \<longrightarrow> mutation_magnitude u G G = 0)
   \<and> (0 \<le> u \<and> u < 1 \<and> 1 \<le> g \<and> g \<le> G \<longrightarrow>
        0 \<le> mutation_magnitude u g G \<and> mutation_magnitude u g G \<le> 1)
   \<and> (0 \<le> u \<and> u < 1 \<and> 1 \<le> g \<and> g \<le> g' \<and> g' \<le> G \<longrightarrow>
        mutation_magnitude u g' G \<le> mutation_magnitude u g G)"
proof (intro conjI impI)
  show "generation M prm dr g P =
      bind_err (select M P (select_draws dr)) (\<lambda>P1.
      bind_err (crossover P1 (crossover_rate prm) (crossover_alpha prm) (cross_draws dr)) (\<lambda>P2.
      bind_err (np_randint (var_dim prm) (count_draw dr)) (\<lambda>n.
      Population_mutate M P2 (n + 1) (mutation_rate prm)
        (mutation_magnitude (magnitude_draw dr) g (max_generation prm)) (mut_draws dr))))"
    by (simp add: generation_def Let_def)
next
  assume h: "1 \<le> g \<and> g < G \<and> 0 < u \<and> u < 1"
  then have "real_of_int g / real_of_int G \<noteq> 1" by simp
  then show "mutation_magnitude u g G = 1 - u powr (1 - real_of_int g / real_of_int G)"
    using h by (simp add: mutation_magnitude_def py_pow_def)
next
  assume "1 \<le> G"
  then show "mutation_magnitude u G G = 0" by (simp add: mutation_magnitude_def py_pow_def)
next
  assume h: "0 \<le> u \<and> u < 1 \<and> 1 \<le> g \<and> g \<le> G"
  then have e: "0 \<le> 1 - real_of_int g / real_of_int G" using exponent_range by simp
  from py_pow_bounds[OF _ _ e, of u] h
  show "0 \<le> mutation_magnitude u g G" "mutation_magnitude u g G \<le> 1"
    by (simp_all add: mutation_magnitude_def)
next
  assume h: "0 \<le> u \<and> u < 1 \<and> 1 \<le> g \<and> g \<le> g' \<and> g' \<le> G"
  then have e: "0 \<le> 1 - real_of_int g' / real_of_int G" using exponent_range[of g' G] by simp
  have m: "1 - real_of_int g' / real_of_int G \<le> 1 - real_of_int g / real_of_int G"
    using h exponent_antimono by simp
  from py_pow_antimono[OF _ _ e m, of u] h
  show "mutation_magnitude u g' G \<le> mutation_magnitude u g G"
    by (simp add: mutation_magnitude_def)
qed

text \<open>
  The amended claim C5 for the draw \<open>1/4\<close> in generations \<open>5\<close> and \<open>10\<close> of \<open>10\<close>.
\<close>

theorem magnitude_schedule_witness:
  "mutation_magnitude (1/4) 5 10 = 1/2 \<and> mutation_magnitude (1/4) 10 10 = 0
   \<and> 0 \<le> mutation_magnitude (1/4) 5 10 \<and> mutation_magnitude (1/4) 5 10 \<le> 1
   \<and> mutation_magnitude (1/4) 10 10 \<le> mutation_magnitude (1/4) 5 10"
proof -
  note t = magnitude_schedule[of _ _ _ 5 _ 10 "1/4" 10]
  have "sqrt (1/4 :: real) = 1/2" by (simp add: real_sqrt_divide)
  then have p: "(1/4 :: real) powr (1/2) = 1/2" by (simp add: powr_half_sqrt)
  have a: "mutation_magnitude (1/4) 5 10 = 1/2" using t p by simp
  have b: "mutation_magnitude (1/4) 10 10 = 0" using t by simp
  show ?thesis using a b by simp
qed

text \<open>
  Claim C9. The constructor of the modular driver raises \<^verbatim>\<open>ValueError\<close> when the list of
  classes declared by the crossover or by the mutation operator is empty or does not
  contain the class of the population's individual, and returns the driver otherwise.
  \<open>run\<close> takes the driver the constructor returns, so no generation runs after the error.
\<close>

theorem GAProcess_init_compatibility:
  "(individual_class crossover_op = [] \<or> individual_class mutation = []
      \<or> m_individual_class population \<notin> set (individual_class crossover_op)
      \<or> m_individual_class population \<notin> set (individual_class mutation) \<longrightarrow>
      GAProcess_init population selection crossover_op mutation fun_fitness = Inl ValueError)
   \<and> (m_individual_class population \<in> set (individual_class crossover_op)
      \<and> m_individual_class population \<in> set (individual_class mutation) \<longrightarrow>
      GAProcess_init population selection crossover_op mutation fun_fitness =
        Inr \<lparr>gp_population = population, gp_selection = selection,
             gp_crossover = crossover_op, gp_mutation = mutation,
             gp_fun_fitness = fun_fitness\<rparr>)"
  by (auto simp: GAProcess_init_def)

text \<open>
  Claim C9 at a population of real-coded individuals: a mutation operator declared for
  binary individuals only is refused, one declared for real-coded individuals is accepted.
\<close>

theorem GAProcess_init_compatibility_witness:
  "GAProcess_init example_modular_population keep_population example_crossover_operator
      binary_mutation_operator default_fun_fitness = Inl ValueError
   \<and> GAProcess_init example_modular_population keep_population example_crossover_operator
      example_mutation_operator default_fun_fitness = Inr example_process"
proof -
  have a: "m_individual_class example_modular_population \<notin> set (individual_class binary_mutation_operator)"
    by (simp add: example_modular_population_def binary_mutation_operator_def)
  have b: "m_individual_class example_modular_population \<in> set (individual_class example_crossover_operator)"
    "m_individual_class example_modular_population \<in> set (individual_class example_mutation_operator)"
    by (simp_all add: example_modular_population_def example_crossover_operator_def
        example_mutation_operator_def)
  show ?thesis
    using GAProcess_init_compatibility[of example_crossover_operator binary_mutation_operator
        example_modular_population keep_population default_fun_fitness]
      GAProcess_init_compatibility[of example_crossover_operator example_mutation_operator
        example_modular_population keep_population default_fun_fitness] a b
    by (simp add: example_process_def)
qed

lemma length_takeWhile_less:
  "x \<in> set xs \<Longrightarrow> \<not> P x \<Longrightarrow> length (takeWhile P xs) < length xs"
  by (induction xs) auto

lemma np_argmin_min:
  assumes "np_argmin xs = Inr k"
  shows "k < length xs" "\<forall>x \<in> set xs. xs ! k \<le> x"
proof -
  have ne: "xs \<noteq> []" using assms by (cases "xs = []") (simp_all add: np_argmin_def)
  then have k: "k = length (takeWhile (\<lambda>x. x \<noteq> min_list xs) xs)"
    using assms by (simp add: np_argmin_def)
  have m: "min_list xs = Min (set xs)" using ne by (rule min_list_Min)
  have "Min (set xs) \<in> set xs" using ne by (intro Min_in) simp_all
  then have "min_list xs \<in> set xs" using m by simp
  then have lt: "length (takeWhile (\<lambda>x. x \<noteq> min_list xs) xs) < length xs"
    by (rule length_takeWhile_less) simp
  then show "k < length xs" using k by simp
  have "\<not> (xs ! k \<noteq> min_list xs)"
    unfolding k using lt by (rule nth_length_takeWhile)
  then have "xs ! k = Min (set xs)" using m by simp
  then show "\<forall>x \<in> set xs. xs ! k \<le> x" by simp
qed

lemma bind_err_eq_Inr:
  "bind_err r f = Inr y \<longleftrightarrow> (\<exists>x. r = Inr x \<and> f x = Inr y)"
  by (cases r) simp_all

lemma m_best_least:
  assumes "m_best f fit P = Inr b"
  shows "b \<in> set (m_individuals P)" "\<forall>x \<in> set (m_individuals P). f b \<le> f x"
proof -
  from assms obtain k where k: "np_argmin (map f (m_individuals P)) = Inr k"
    and b: "list_get (m_individuals P) k = Inr b"
    unfolding m_best_def bind_err_eq_Inr by blast
  from np_argmin_min[OF k] have kl: "k < length (m_individuals P)"
    and least: "\<forall>x \<in> set (map f (m_individuals P)). map f (m_individuals P) ! k \<le> x"
    by simp_all
  from b kl have bk: "b = m_individuals P ! k" by (simp add: list_get_def)
  then show "b \<in> set (m_individuals P)" using kl by simp
  show "\<forall>x \<in> set (m_individuals P). f b \<le> f x" using least kl bk by simp
qed

lemma set_elite_member:
  assumes "set_elite P r b = Inr P'"
  shows "b \<in> set (m_individuals P')"
proof -
  from assms obtain pos where
    e: "(if nat pos < length (m_individuals P)
         then Inr (P\<lparr>m_individuals := (m_individuals P)[nat pos := b]\<rparr>)
         else Inl IndexError) = Inr P'"
    unfolding set_elite_def bind_err_eq_Inr by blast
  then have lt: "nat pos < length (m_individuals P)"
    by (cases "nat pos < length (m_individuals P)") simp_all
  then have "P' = P\<lparr>m_individuals := (m_individuals P)[nat pos := b]\<rparr>" using e by simp
  then show ?thesis using lt by (simp add: set_update_memI)
qed

lemma run_loop_Cons_elite:
  assumes "m_best f (gp_fun_fitness G) P = Inr b"
  shows "run_loop G f gen True dr (n # ns) P =
     (case bind_err (run_operators G gen dr n P) (\<lambda>P3. set_elite P3 (slot_draw dr n) b) of
        Inl e \<Rightarrow> ([f b], Inl e)
      | Inr P4 \<Rightarrow> (f b # fst (run_loop G f gen True dr ns P4), snd (run_loop G f gen True dr ns P4)))"
  using assms by (simp add: split_beta split: sum.splits)

lemma non_increasing_Cons:
  "non_increasing (x # xs) \<longleftrightarrow> (\<forall>v \<in> set xs. v \<le> x) \<and> non_increasing xs"
  by (simp add: non_increasing_def)

lemma run_loop_elitism:
  "x \<in> set (m_individuals P) \<Longrightarrow>
     non_increasing (fst (run_loop G f gen True dr ns P))
     \<and> (\<forall>v \<in> set (fst (run_loop G f gen True dr ns P)). v \<le> f x)"
proof (induction ns arbitrary: P x)
  case Nil
  then show ?case by (simp add: non_increasing_def)
next
  case (Cons n ns)
  show ?case
  proof (cases "m_best f (gp_fun_fitness G) P")
    case (Inl e)
    then show ?thesis by (simp add: non_increasing_def)
  next
    case (Inr b)
    from m_best_least(2)[OF Inr] Cons.prems have bx: "f b \<le> f x" by simp
    note step = run_loop_Cons_elite[OF Inr, of gen dr n ns]
    show ?thesis
    proof (cases "bind_err (run_operators G gen dr n P) (\<lambda>P3. set_elite P3 (slot_draw dr n) b)")
      case (Inl e)
      then show ?thesis unfolding step using bx by (simp add: non_increasing_def)
    next
      case P4: (Inr P4)
      then obtain P3 where "set_elite P3 (slot_draw dr n) b = Inr P4"
        unfolding bind_err_eq_Inr by blast
      then have "b \<in> set (m_individuals P4)" by (rule set_elite_member)
      from Cons.IH[OF this]
      have ih: "non_increasing (fst (run_loop G f gen True dr ns P4))"
        "\<forall>v \<in> set (fst (run_loop G f gen True dr ns P4)). v \<le> f b"
        by simp_all
      have tr: "fst (run_loop G f gen True dr (n # ns) P) = f b # fst (run_loop G f gen True dr ns P4)"
        unfolding step using P4 by simp
      have "\<forall>v \<in> set (fst (run_loop G f gen True dr ns P4)). v \<le> f x"
        using ih(2) bx by fastforce
      then show ?thesis
        unfolding tr non_increasing_Cons using ih bx by simp
    qed
  qed
qed

lemma run_loop_elitism_any:
  "non_increasing (fst (run_loop G f gen True dr ns P))"
proof (cases ns)
  case Nil
  then show ?thesis by (simp add: non_increasing_def)
next
  case (Cons n ns')
  show ?thesis
  proof (cases "m_best f (gp_fun_fitness G) P")
    case (Inl e)
    then show ?thesis using Cons by (simp add: non_increasing_def)
  next
    case (Inr b)
    from run_loop_elitism[OF m_best_least(1)[OF Inr]] show ?thesis by simp
  qed
qed

lemma run_loop_last:
  "run_loop G f gen True dr ns P = (tr, Inr P') \<Longrightarrow> ns \<noteq> [] \<Longrightarrow>
     length tr = length ns \<and> (\<exists>y \<in> set (m_individuals P'). f y = last tr)"
proof (induction ns arbitrary: P tr)
  case Nil
  then show ?case by simp
next
  case (Cons n ns)
  have "\<exists>b. m_best f (gp_fun_fitness G) P = Inr b"
  proof (cases "m_best f (gp_fun_fitness G) P")
    case (Inl e)
    then show ?thesis using Cons.prems(1) by simp
  next
    case (Inr b)
    then show ?thesis by simp
  qed
  then obtain b where b: "m_best f (gp_fun_fitness G) P = Inr b" by blast
  note step = run_loop_Cons_elite[OF b, of gen dr n ns]
  have "\<exists>P4. bind_err (run_operators G gen dr n P) (\<lambda>P3. set_elite P3 (slot_draw dr n) b) = Inr P4"
  proof (cases "bind_err (run_operators G gen dr n P) (\<lambda>P3. set_elite P3 (slot_draw dr n) b)")
    case (Inl e)
    then show ?thesis using Cons.prems(1) unfolding step by simp
  next
    case (Inr P4)
    then show ?thesis by simp
  qed
  then obtain P4 where
    P4: "bind_err (run_operators G gen dr n P) (\<lambda>P3. set_elite P3 (slot_draw dr n) b) = Inr P4"
    by blast
  then obtain P3 where "set_elite P3 (slot_draw dr n) b = Inr P4"
    unfolding bind_err_eq_Inr by blast
  then have mem: "b \<in> set (m_individuals P4)" by (rule set_elite_member)
  define tr' where "tr' = fst (run_loop G f gen True dr ns P4)"
  have tr: "tr = f b # tr'" and res: "snd (run_loop G f gen True dr ns P4) = Inr P'"
    using Cons.prems(1) unfolding step P4 tr'_def by simp_all
  have rest: "run_loop G f gen True dr ns P4 = (tr', Inr P')"
    using res tr'_def by (simp add: prod_eq_iff)
  show ?case
  proof (cases "ns = []")
    case True
    then have "tr' = []" "P' = P4" using rest by simp_all
    then show ?thesis using tr mem True by auto
  next
    case False
    from Cons.IH[OF rest False] have "length tr' = length ns" "\<exists>y \<in> set (m_individuals P'). f y = last tr'"
      by simp_all
    moreover have "tr' \<noteq> []" using \<open>length tr' = length ns\<close> False by auto
    ultimately show ?thesis using tr by simp
  qed
qed

lemma non_increasing_last:
  "non_increasing xs \<Longrightarrow> v \<in> set xs \<Longrightarrow> last xs \<le> v"
proof (induction xs)
  case Nil
  then show ?case by simp
next
  case (Cons x xs)
  show ?case
  proof (cases "xs = []")
    case True
    then show ?thesis using Cons.prems by simp
  next
    case False
    then have l: "last (x # xs) = last xs" by simp
    have ni: "non_increasing xs" and below: "\<forall>w \<in> set xs. w \<le> x"
      using Cons.prems(1) by (simp_all add: non_increasing_Cons)
    show ?thesis
    proof (cases "v = x")
      case True
      have "last xs \<in> set xs" using False by simp
      then show ?thesis using below True l by simp
    next
      case False
      then have "v \<in> set xs" using Cons.prems(2) by simp
      from Cons.IH[OF ni this] show ?thesis using l by simp
    qed
  qed
qed

text \<open>
  Claim C6. With elitism the evaluations of the snapshots, in the order \<open>run\<close> takes them,
  never increase, whatever the operators do and wherever the run ends. When \<open>run\<close> returns
  an individual there was one snapshot per generation, and the evaluation of the
  individual returned is at most that of every snapshot. In one generation the snapshot
  is an individual of least evaluation, taken before the operators, and when the
  operators return a population of \<open>m_size > 0\<close> individuals, slot \<open>slot_draw mod m_size\<close> of it
  is overwritten with the snapshot.
\<close>

theorem elitism_keeps_best:
  "non_increasing (fst (run G f gen True fresh dr))
   \<and> (\<forall>b. snd (run G f gen True fresh dr) = Inr b \<longrightarrow>
         length (fst (run G f gen True fresh dr)) = nat gen
         \<and> (\<forall>v \<in> set (fst (run G f gen True fresh dr)). f b \<le> v))
   \<and> (m_best f (gp_fun_fitness G) P = Inr the_best \<and> run_operators G gen dr n P = Inr P3
        \<and> 0 < m_size P3 \<and> m_size P3 = length (m_individuals P3) \<longrightarrow>
         (\<forall>x \<in> set (m_individuals P). f the_best \<le> f x)
         \<and> run_loop G f gen True dr [n] P =
             ([f the_best],
              Inr (P3\<lparr>m_individuals := (m_individuals P3)[slot_draw dr n mod m_size P3 := the_best]\<rparr>)))"
proof -
  let ?P0 = "m_initialize fresh (gp_population G)"
  let ?loop = "run_loop G f gen True dr [1..gen] ?P0"
  have tr: "fst (run G f gen True fresh dr) = fst ?loop"
    and res: "snd (run G f gen True fresh dr) = bind_err (snd ?loop) (m_best f (gp_fun_fitness G))"
    by (simp_all add: run_def split_beta)
  have A: "non_increasing (fst (run G f gen True fresh dr))"
    unfolding tr by (rule run_loop_elitism_any)
  have B: "length (fst (run G f gen True fresh dr)) = nat gen
         \<and> (\<forall>v \<in> set (fst (run G f gen True fresh dr)). f b \<le> v)"
    if "snd (run G f gen True fresh dr) = Inr b" for b
  proof -
    from that obtain P' where P': "snd ?loop = Inr P'" and b: "m_best f (gp_fun_fitness G) P' = Inr b"
      unfolding res bind_err_eq_Inr by blast
    have loop: "?loop = (fst ?loop, Inr P')" using P' by (simp add: prod_eq_iff)
    have len: "length [1..gen] = nat gen" by simp
    have l: "length (fst (run G f gen True fresh dr)) = nat gen"
    proof (cases "[1..gen] = []")
      case True
      then show ?thesis unfolding tr using len by simp
    next
      case False
      from run_loop_last[OF loop False] show ?thesis unfolding tr using len by simp
    qed
    have "f b \<le> v" if v: "v \<in> set (fst (run G f gen True fresh dr))" for v
    proof -
      from v have ne: "[1..gen] \<noteq> []" unfolding tr by (cases "[1..gen] = []") auto
      from run_loop_last[OF loop ne] obtain y where
        y: "y \<in> set (m_individuals P')" "f y = last (fst ?loop)"
        by blast
      have "f b \<le> f y" using m_best_least(2)[OF b] y(1) by simp
      moreover have "last (fst ?loop) \<le> v"
        using non_increasing_last[OF run_loop_elitism_any, of v G f gen dr "[1..gen]" ?P0] v
        unfolding tr by simp
      ultimately show ?thesis using y(2) by simp
    qed
    then show ?thesis using l by simp
  qed
  have C: "(\<forall>x \<in> set (m_individuals P). f the_best \<le> f x)
         \<and> run_loop G f gen True dr [n] P =
             ([f the_best],
              Inr (P3\<lparr>m_individuals := (m_individuals P3)[slot_draw dr n mod m_size P3 := the_best]\<rparr>))"
    if h: "m_best f (gp_fun_fitness G) P = Inr the_best \<and> run_operators G gen dr n P = Inr P3
        \<and> 0 < m_size P3 \<and> m_size P3 = length (m_individuals P3)"
  proof -
    from h have h1: "m_best f (gp_fun_fitness G) P = Inr the_best"
      and h2: "run_operators G gen dr n P = Inr P3"
      and h3: "0 < m_size P3" and h4: "m_size P3 = length (m_individuals P3)"
      by blast+
    have pos: "0 < int (m_size P3)" using h3 by linarith
    have eq: "nat (int (slot_draw dr n) mod int (m_size P3)) = slot_draw dr n mod m_size P3"
      by (simp add: nat_mod_distrib)
    have "slot_draw dr n mod m_size P3 < m_size P3" using h3 by (rule mod_less_divisor)
    then have lt: "slot_draw dr n mod m_size P3 < length (m_individuals P3)" using h4 by linarith
    from eq lt have "set_elite P3 (slot_draw dr n) the_best =
        Inr (P3\<lparr>m_individuals := (m_individuals P3)[slot_draw dr n mod m_size P3 := the_best]\<rparr>)"
      using pos by (simp add: set_elite_def np_randint_def)
    then have "run_loop G f gen True dr [n] P =
        ([f the_best],
         Inr (P3\<lparr>m_individuals := (m_individuals P3)[slot_draw dr n mod m_size P3 := the_best]\<rparr>))"
      using h1 h2 by simp
    moreover have "\<forall>x \<in> set (m_individuals P). f the_best \<le> f x"
      using m_best_least(2)[OF h1] by simp
    ultimately show ?thesis by simp
  qed
  show ?thesis using A B C by blast
qed

lemma example_run:
  "run example_process abs 2 True example_fresh example_run_draws = ([3, 2], Inr 2)"
  by (simp add: run_def m_initialize_def example_process_def example_modular_population_def
      example_fresh_def example_run_draws_def constant_draws_def upt_rec
      m_best_def np_argmin_def list_get_def run_operators_def keep_population_def
      example_crossover_operator_def example_mutation_operator_def decrement_all_def
      py_pow_def set_elite_def np_randint_def Let_def upto.simps)

text \<open>
  Claim C6 at a run of two generations on the individuals \<open>3\<close> and \<open>4\<close>, evaluated by their
  absolute value, with a mutation that subtracts the rate from every individual.
\<close>

theorem elitism_keeps_best_witness:
  "run example_process abs 2 True example_fresh example_run_draws = ([3, 2], Inr 2)
   \<and> non_increasing [3, 2] \<and> length [3, 2 :: real] = nat 2
   \<and> \<bar>2 :: real\<bar> \<le> 3 \<and> \<bar>2 :: real\<bar> \<le> 2"
  using elitism_keeps_best[of example_process abs 2 example_fresh example_run_draws]
  unfolding example_run by simp

end
